theory Spec2Isabelle
  imports Complex_Main "HOL-Library.AList"
begin

section \<open>Python values and text\<close>

text \<open>
  A Python \<open>str\<close> is a \<open>string\<close>. The character classes of \<open>re\<close> and of the
  \<open>str\<close> methods are given on the ASCII range, where the cue directives live: a character
  outside the lists below is neither white space, nor a digit, nor a word character, and
  has no other case. Text that the program itself writes in Chinese is kept as its UTF-8
  bytes.

  A Python \<open>float\<close> is the exact rational it approximates (rounding is not modelled); the
  conversion of an \<open>int\<close> to a \<open>float\<close> raises \<open>OverflowError\<close> as CPython does, from
  \<open>2^1024 - 2^970\<close> on.
\<close>

datatype py_error = KeyError | OverflowError | TypeError | ValueError | OSError

datatype pyval = PNone | PInt int | PStr string | PFloat rat

type_synonym pydict = "(string \<times> pyval) list"

definition dict_get :: "pydict \<Rightarrow> string \<Rightarrow> pyval option" where
  "dict_get d k = map_of d k"

definition dict_set :: "string \<Rightarrow> pyval \<Rightarrow> pydict \<Rightarrow> pydict" where
  "dict_set k v d = AList.update k v d"

definition is_space :: "char \<Rightarrow> bool" where
  "is_space c = (c \<in> set [CHR 0x09, CHR 0x0A, CHR 0x0B, CHR 0x0C, CHR 0x0D,
                          CHR 0x1C, CHR 0x1D, CHR 0x1E, CHR 0x1F, CHR 0x20])"

definition is_digit :: "char \<Rightarrow> bool" where
  "is_digit c = (c \<in> set ''0123456789'')"

definition lower_letters :: string where
  "lower_letters = ''abcdefghijklmnopqrstuvwxyz''"

definition upper_letters :: string where
  "upper_letters = ''ABCDEFGHIJKLMNOPQRSTUVWXYZ''"

definition is_word :: "char \<Rightarrow> bool" where
  "is_word c = (is_digit c \<or> c \<in> set lower_letters \<or> c \<in> set upper_letters \<or> c = CHR ''_'')"

definition upper_char :: "char \<Rightarrow> char" where
  "upper_char c = (case map_of (zip lower_letters upper_letters) c of Some u \<Rightarrow> u | None \<Rightarrow> c)"

definition lower_char :: "char \<Rightarrow> char" where
  "lower_char c = (case map_of (zip upper_letters lower_letters) c of Some l \<Rightarrow> l | None \<Rightarrow> c)"

definition upper :: "string \<Rightarrow> string" where
  "upper s = map upper_char s"

definition lower :: "string \<Rightarrow> string" where
  "lower s = map lower_char s"

text \<open>\<open>s.strip()\<close> and \<open>s.strip(chars)\<close>.\<close>

definition strip_by :: "(char \<Rightarrow> bool) \<Rightarrow> string \<Rightarrow> string" where
  "strip_by p s = rev (dropWhile p (rev (dropWhile p s)))"

definition strip :: "string \<Rightarrow> string" where
  "strip s = strip_by is_space s"

definition startswith :: "string \<Rightarrow> string \<Rightarrow> bool" where
  "startswith s p = (take (length p) s = p)"

text \<open>\<open>p in s\<close> for strings.\<close>

fun contains :: "string \<Rightarrow> string \<Rightarrow> bool" where
  "contains [] p = (p = [])"
| "contains (c # cs) p = (startswith (c # cs) p \<or> contains cs p)"

text \<open>\<open>s.split()\<close>: the maximal runs of characters that are not white space.\<close>

function split_ws :: "string \<Rightarrow> string list" where
  "split_ws s =
     (let s' = dropWhile is_space s
      in if s' = [] then []
         else takeWhile (\<lambda>c. \<not> is_space c) s' # split_ws (dropWhile (\<lambda>c. \<not> is_space c) s'))"
  by pat_completeness auto
termination
proof (relation "measure length")
  fix s s' :: string
  assume s': "s' = dropWhile is_space s" and ne: "s' \<noteq> []"
  have "length (dropWhile (\<lambda>c. \<not> is_space c) s') < length s'"
  proof (cases s')
    case Nil
    with ne show ?thesis by simp
  next
    case (Cons c cs)
    with s' have "\<not> is_space c"
      by (metis hd_dropWhile list.sel(1) ne)
    with Cons show ?thesis
      by (simp add: le_imp_less_Suc length_dropWhile_le)
  qed
  moreover have "length s' \<le> length s"
    using s' by (simp add: length_dropWhile_le)
  ultimately show "(dropWhile (\<lambda>c. \<not> is_space c) s', s) \<in> measure length"
    by simp
qed simp

declare split_ws.simps [simp del]

text \<open>\<open>s.split(sep)\<close> for a separator of one character: never the empty list.\<close>

fun split_on :: "char \<Rightarrow> string \<Rightarrow> string \<Rightarrow> string list" where
  "split_on sep acc [] = [rev acc]"
| "split_on sep acc (c # cs) =
     (if c = sep then rev acc # split_on sep [] cs else split_on sep (c # acc) cs)"

definition split_sep :: "char \<Rightarrow> string \<Rightarrow> string list" where
  "split_sep sep s = split_on sep [] s"

text \<open>\<open>re.split(r'\s+', s, 1)\<close>: at most one split, at the first run of white space.\<close>

definition re_split_ws_1 :: "string \<Rightarrow> string list" where
  "re_split_ws_1 s =
     (let rest = dropWhile (\<lambda>c. \<not> is_space c) s
      in if rest = [] then [s]
         else [takeWhile (\<lambda>c. \<not> is_space c) s, dropWhile is_space rest])"

text \<open>\<open>re.match(r'(\d+)', s)\<close>, group 1.\<close>

definition match_digits :: "string \<Rightarrow> string option" where
  "match_digits s = (let ds = takeWhile is_digit s in if ds = [] then None else Some ds)"

text \<open>\<open>re.search(r'"([^"]+)"', s)\<close>, group 1: the leftmost quote that is followed by a
  non-empty run without quotes and a closing quote.\<close>

fun search_quoted :: "string \<Rightarrow> string option" where
  "search_quoted [] = None"
| "search_quoted (c # cs) =
     (if c = CHR 0x22 \<and> takeWhile (\<lambda>x. x \<noteq> CHR 0x22) cs \<noteq> [] \<and> dropWhile (\<lambda>x. x \<noteq> CHR 0x22) cs \<noteq> []
      then Some (takeWhile (\<lambda>x. x \<noteq> CHR 0x22) cs)
      else search_quoted cs)"

text \<open>\<open>re.match(r'^\s*(\w+)\s*(.*)', line, re.IGNORECASE)\<close>, both groups; the dot stops
  at a line feed.\<close>

definition match_command :: "string \<Rightarrow> (string \<times> string) option" where
  "match_command line =
     (let s = dropWhile is_space line; w = takeWhile is_word s
      in if w = [] then None
         else Some (w, takeWhile (\<lambda>c. c \<noteq> CHR 0x0A) (dropWhile is_space (dropWhile is_word s))))"

text \<open>\<open>sep.join(ws)\<close>, with a separator of one character.\<close>

fun join_sep :: "char \<Rightarrow> string list \<Rightarrow> string" where
  "join_sep sep [] = []"
| "join_sep sep [w] = w"
| "join_sep sep (w # v # ws) = w @ sep # join_sep sep (v # ws)"

subsection \<open>Integers from text\<close>

definition digit_val :: "char \<Rightarrow> int" where
  "digit_val c = int (of_char c) - 48"

definition int_of_digits :: "string \<Rightarrow> int" where
  "int_of_digits ds = foldl (\<lambda>n c. 10 * n + digit_val c) 0 ds"

text \<open>The digits of a literal in which single underscores may separate digits.\<close>

fun literal_digits :: "string \<Rightarrow> string option" where
  "literal_digits [] = None"
| "literal_digits [c] = (if is_digit c then Some [c] else None)"
| "literal_digits (c # d # cs) =
     (if \<not> is_digit c then None
      else map_option ((#) c) (literal_digits (if d = CHR ''_'' then cs else d # cs)))"

text \<open>White space as \<open>int()\<close> strips it from an ASCII string (the six of C's \<open>isspace\<close>).\<close>

definition is_cspace :: "char \<Rightarrow> bool" where
  "is_cspace c = (c \<in> set [CHR 0x09, CHR 0x0A, CHR 0x0B, CHR 0x0C, CHR 0x0D, CHR 0x20])"

text \<open>\<open>int(s)\<close>: \<open>None\<close> is its \<open>ValueError\<close>. (The bound that newer versions of
  CPython put on the number of digits is not modelled.)\<close>

definition py_int :: "string \<Rightarrow> int option" where
  "py_int s =
     (case strip_by is_cspace s of
        [] \<Rightarrow> None
      | c # cs \<Rightarrow>
          if c = CHR ''-'' then map_option (\<lambda>ds. - int_of_digits ds) (literal_digits cs)
          else if c = CHR ''+'' then map_option int_of_digits (literal_digits cs)
          else map_option int_of_digits (literal_digits (c # cs)))"

text \<open>\<open>float(n)\<close> of an \<open>int\<close> raises \<open>OverflowError\<close> when \<open>n\<close> rounds beyond the largest
  double.\<close>

definition float_overflows :: "int \<Rightarrow> bool" where
  "float_overflows n = (2 ^ 1024 - 2 ^ 970 \<le> \<bar>n\<bar>)"

section \<open>core/parser.py\<close>

text \<open>\<open>CueParser._parse_time\<close>: \<open>m, s, f = map(int, t.split(':'))\<close> raises \<open>ValueError\<close>
  when there are not three fields or \<open>int\<close> refuses one, and the handler returns \<open>0.0\<close>;
  \<open>m * 60 + s + f / 75.0\<close> converts first \<open>f\<close>, then \<open>m * 60 + s\<close> to \<open>float\<close>.\<close>

definition parse_time :: "string \<Rightarrow> py_error + rat" where
  "parse_time t =
     (case map py_int (split_sep CHR '':'' t) of
        [Some m, Some s, Some f] \<Rightarrow>
          if float_overflows f \<or> float_overflows (m * 60 + s) then Inl OverflowError
          else Inr (of_int (m * 60 + s) + of_int f / 75)
      | _ \<Rightarrow> Inr 0)"


text \<open>\<open>str(n)\<close> for an \<open>int\<close>, and the title \<open>f"\<dots> {n}"\<close> that a new track starts
  with (two Chinese characters, a space, the number).\<close>

fun dec_digits :: "nat \<Rightarrow> string" where
  "dec_digits n =
     (if n < 10 then [char_of (48 + n)] else dec_digits (n div 10) @ [char_of (48 + n mod 10)])"

declare dec_digits.simps [simp del]

definition str_int :: "int \<Rightarrow> string" where
  "str_int i = (if i < 0 then CHR ''-'' # dec_digits (nat (- i)) else dec_digits (nat i))"

definition default_title :: "int \<Rightarrow> string" where
  "default_title n =
     [CHR 0xE9, CHR 0x9F, CHR 0xB3, CHR 0xE8, CHR 0xBD, CHR 0xA8, CHR 0x20] @ str_int n"

text \<open>
  The state of the loop of \<open>CueParser.parse\<close>. A track is a dictionary object that the
  program reaches through references (\<open>current_track_info\<close>, the entries of
  \<open>self.tracks_data\<close>) and changes in place, so the objects live in a store and a
  reference is an index into it.
\<close>

record pstate =
  album_data :: pydict
  tracks_data :: "nat list"
  store :: "pydict list"
  current_track_info :: "nat option"

text \<open>\<open>if current_track_info:\<close> holds for a dictionary that is not empty.\<close>

definition truthy_current :: "pstate \<Rightarrow> bool" where
  "truthy_current st =
     (case current_track_info st of None \<Rightarrow> False | Some r \<Rightarrow> store st ! r \<noteq> [])"

text \<open>\<open>current_track_info[k] = v\<close>.\<close>

definition current_set :: "string \<Rightarrow> pyval \<Rightarrow> pstate \<Rightarrow> pstate" where
  "current_set k v st =
     (case current_track_info st of
        None \<Rightarrow> st
      | Some r \<Rightarrow> st\<lparr>store := (store st)[r := dict_set k v (store st ! r)]\<rparr>)"

text \<open>\<open>self.album_data[k] = v\<close>.\<close>

definition album_set :: "string \<Rightarrow> pyval \<Rightarrow> pstate \<Rightarrow> pstate" where
  "album_set k v st = st\<lparr>album_data := dict_set k v (album_data st)\<rparr>"

definition new_track :: "pydict \<Rightarrow> string \<Rightarrow> pydict" where
  "new_track album ds =
     [(''number'', PInt (int_of_digits ds)),
      (''performer'', case dict_get album ''performer'' of None \<Rightarrow> PNone | Some v \<Rightarrow> v),
      (''title'', PStr (default_title (int_of_digits ds)))]"

definition on_track :: "pstate \<Rightarrow> string \<Rightarrow> pstate" where
  "on_track st args =
     (let st1 = (if truthy_current st
                 then st\<lparr>tracks_data := tracks_data st @ [the (current_track_info st)]\<rparr>
                 else st)
      in case match_digits args of
           None \<Rightarrow> st1
         | Some ds \<Rightarrow>
             st1\<lparr>store := store st1 @ [new_track (album_data st1) ds],
                 current_track_info := Some (length (store st1))\<rparr>)"

definition on_file :: "pstate \<Rightarrow> string \<Rightarrow> pstate" where
  "on_file st args =
     (if current_track_info st = None
      then (case search_quoted args of
              Some q \<Rightarrow> album_set ''file'' (PStr q) st
            | None \<Rightarrow>
                (case split_ws args of
                   [] \<Rightarrow> st
                 | tok # _ \<Rightarrow> album_set ''file'' (PStr tok) st))
      else st)"

definition on_text :: "string \<Rightarrow> pstate \<Rightarrow> string \<Rightarrow> pstate" where
  "on_text key st args =
     (let stripped_args = strip_by (\<lambda>c. c = CHR 0x22) args
      in if truthy_current st then current_set key (PStr stripped_args) st
         else album_set key (PStr stripped_args) st)"

definition on_index :: "pstate \<Rightarrow> string \<Rightarrow> py_error + pstate" where
  "on_index st args =
     (if truthy_current st \<and> startswith args ''01'' \<and> 1 < length (split_ws args)
      then (case parse_time (split_ws args ! 1) of
              Inl e \<Rightarrow> Inl e
            | Inr v \<Rightarrow> Inr (current_set ''start_time'' (PFloat v) st))
      else Inr st)"

definition on_rem :: "pstate \<Rightarrow> string \<Rightarrow> pstate" where
  "on_rem st args =
     (let rem_parts = re_split_ws_1 args
      in if length rem_parts = 2
         then (let rem_key = upper (rem_parts ! 0); rem_value = rem_parts ! 1
               in if startswith rem_key ''REPLAYGAIN_''
                  then (if truthy_current st \<and> contains rem_key ''TRACK''
                        then current_set (lower rem_key) (PStr rem_value) st
                        else if \<not> truthy_current st \<and> contains rem_key ''ALBUM''
                        then album_set (lower rem_key) (PStr rem_value) st
                        else st)
                  else st)
         else st)"

definition exec_command :: "pstate \<Rightarrow> string \<Rightarrow> string \<Rightarrow> py_error + pstate" where
  "exec_command st command args =
     (if command = ''TRACK'' then Inr (on_track st args)
      else if command = ''FILE'' then Inr (on_file st args)
      else if command = ''TITLE'' then Inr (on_text ''title'' st args)
      else if command = ''PERFORMER'' then Inr (on_text ''performer'' st args)
      else if command = ''INDEX'' then on_index st args
      else if command = ''REM'' then Inr (on_rem st args)
      else Inr st)"

text \<open>What the loop body reads from one line: \<open>None\<close> where it says \<open>continue\<close>.\<close>

definition directive :: "string \<Rightarrow> (string \<times> string) option" where
  "directive raw =
     (let line = strip raw
      in if line = [] then None
         else map_option (\<lambda>(command, args). (upper command, args)) (match_command line))"

definition exec_line :: "pstate \<Rightarrow> string \<Rightarrow> py_error + pstate" where
  "exec_line st raw =
     (case directive raw of
        None \<Rightarrow> Inr st
      | Some (command, args) \<Rightarrow> exec_command st command args)"

fun scan :: "pstate \<Rightarrow> string list \<Rightarrow> py_error + pstate" where
  "scan st [] = Inr st"
| "scan st (raw # rest) = (case exec_line st raw of Inl e \<Rightarrow> Inl e | Inr st' \<Rightarrow> scan st' rest)"

text \<open>Line 76: the track being built joins the list when the input ends.\<close>

definition finish :: "pstate \<Rightarrow> pstate" where
  "finish st =
     (if truthy_current st
      then st\<lparr>tracks_data := tracks_data st @ [the (current_track_info st)]\<rparr>
      else st)"

text \<open>Lines 78 to 80, one round of the loop and the loop over \<open>range(len(tracks_data))\<close>:
  reading \<open>'start_time'\<close> from a dictionary without it raises \<open>KeyError\<close>.\<close>

definition end_time_step :: "nat list \<Rightarrow> pydict list \<Rightarrow> nat \<Rightarrow> py_error + pydict list" where
  "end_time_step ts h i =
     (if i + 1 < length ts
      then (case dict_get (h ! (ts ! (i + 1))) ''start_time'' of
              None \<Rightarrow> Inl KeyError
            | Some v \<Rightarrow> Inr (h[ts ! i := dict_set ''end_time'' v (h ! (ts ! i))]))
      else Inr (h[ts ! i := dict_set ''end_time'' PNone (h ! (ts ! i))]))"

fun end_times :: "nat list \<Rightarrow> pydict list \<Rightarrow> nat list \<Rightarrow> py_error + pydict list" where
  "end_times ts h [] = Inr h"
| "end_times ts h (i # is) =
     (case end_time_step ts h i of Inl e \<Rightarrow> Inl e | Inr h' \<Rightarrow> end_times ts h' is)"

text \<open>What \<open>parse\<close> returns: the album dictionary and the list of track references,
  with the store that holds the track objects.\<close>

record cue =
  album :: pydict
  tracks :: "nat list"
  objects :: "pydict list"

definition track_records :: "cue \<Rightarrow> pydict list" where
  "track_records r = map (\<lambda>t. objects r ! t) (tracks r)"

definition initial :: pstate where
  "initial = \<lparr>album_data = [], tracks_data = [], store = [], current_track_info = None\<rparr>"

text \<open>\<open>CueParser.parse\<close> on a parser as its constructor leaves it (\<open>album_data = {}\<close>,
  \<open>tracks_data = []\<close>), given \<open>self.cue_content_lines\<close>.\<close>

definition parse :: "string list \<Rightarrow> py_error + cue" where
  "parse cue_content_lines =
     (if cue_content_lines = [] then Inr \<lparr>album = [], tracks = [], objects = []\<rparr>
      else (case scan initial cue_content_lines of
              Inl e \<Rightarrow> Inl e
            | Inr st0 \<Rightarrow>
                (let st = finish st0
                 in if tracks_data st = []
                    then Inr \<lparr>album = album_data st, tracks = tracks_data st, objects = store st\<rparr>
                    else (case end_times (tracks_data st) (store st) [0..<length (tracks_data st)] of
                            Inl e \<Rightarrow> Inl e
                          | Inr h \<Rightarrow>
                              Inr \<lparr>album = album_data st, tracks = tracks_data st, objects = h\<rparr>))))"

section \<open>core/processor.py\<close>

text \<open>
  What lies outside the program: the number of processors (\<open>cpu_count()\<close>, at least
  one), whether \<open>os.makedirs\<close> succeeds, the diagnostic text that \<open>ffmpeg -i\<close> writes for a file, and what the body
  of the \<open>try\<close> block of \<open>_process_single_track\<close> does for a job (it runs ffmpeg and
  the tag writer): it ends, or \<open>subprocess.run\<close> raises \<open>CalledProcessError\<close> with the
  captured error text, or something else is raised, with the text of its traceback.
  Console output is not modelled, and ffmpeg is taken to be installed, as
  \<open>check_dependencies\<close> has found it.
\<close>

datatype body_outcome = Done | Called_process_error string | Other_exception string

type_synonym job = "pydict \<times> pydict \<times> string \<times> string \<times> nat"

record env =
  cpu_count :: int
  makedirs :: "string \<Rightarrow> bool"
  ffmpeg_probe :: "string \<Rightarrow> string"
  try_body :: "job \<Rightarrow> body_outcome"

text \<open>The effects of \<open>process_album\<close> on the outside, in the order in which it
  attempts them.\<close>

datatype event = Makedirs string | Probe string | Pool_open int | Split job

definition txt_track :: string where
  "txt_track = [CHR 0xE9, CHR 0x9F, CHR 0xB3, CHR 0xE8, CHR 0xBD, CHR 0xA8]"

definition msg_empty_tracks :: string where
  "msg_empty_tracks =
     [CHR 0xE9, CHR 0x94, CHR 0x99, CHR 0xE8, CHR 0xAF, CHR 0xAF, CHR 0xEF, CHR 0xBC,
      CHR 0x9A, CHR 0xE9, CHR 0x9F, CHR 0xB3, CHR 0xE8, CHR 0xBD, CHR 0xA8, CHR 0xE5,
      CHR 0x88, CHR 0x97, CHR 0xE8, CHR 0xA1, CHR 0xA8, CHR 0xE4, CHR 0xB8, CHR 0xBA,
      CHR 0xE7, CHR 0xA9, CHR 0xBA, CHR 0xEF, CHR 0xBC, CHR 0x8C, CHR 0xE6, CHR 0x97,
      CHR 0xA0, CHR 0xE6, CHR 0xB3, CHR 0x95, CHR 0xE5, CHR 0xA4, CHR 0x84, CHR 0xE7,
      CHR 0x90, CHR 0x86, CHR 0xE3, CHR 0x80, CHR 0x82]"

definition msg_ffmpeg_failed :: string where
  "msg_ffmpeg_failed =
     [CHR 0x20, CHR 0xE5, CHR 0xA4, CHR 0x84, CHR 0xE7, CHR 0x90, CHR 0x86, CHR 0xE5,
      CHR 0xA4, CHR 0xB1, CHR 0xE8, CHR 0xB4, CHR 0xA5, CHR 0xE3, CHR 0x80, CHR 0x82]
     @ ''FFmpeg ''
     @ [CHR 0xE8, CHR 0xBF, CHR 0x94, CHR 0xE5, CHR 0x9B, CHR 0x9E, CHR 0xE9, CHR 0x94,
        CHR 0x99, CHR 0xE8, CHR 0xAF, CHR 0xAF]
     @ '':'' @ [CHR 0x0A] @ ''--- FFmpeg Stderr ---'' @ [CHR 0x0A]"

definition msg_rule :: string where
  "msg_rule = CHR 0x0A # replicate 23 CHR ''-''"

definition msg_unknown :: string where
  "msg_unknown =
     [CHR 0x20, CHR 0xE5, CHR 0xA4, CHR 0x84, CHR 0xE7, CHR 0x90, CHR 0x86, CHR 0xE6,
      CHR 0x97, CHR 0xB6, CHR 0xE5, CHR 0x8F, CHR 0x91, CHR 0xE7, CHR 0x94, CHR 0x9F,
      CHR 0xE6, CHR 0x9C, CHR 0xAA, CHR 0xE7, CHR 0x9F, CHR 0xA5, CHR 0xE9, CHR 0x94,
      CHR 0x99, CHR 0xE8, CHR 0xAF, CHR 0xAF]
     @ '':'' @ [CHR 0x0A]"

text \<open>\<open>f"{n:02d}"\<close>.\<close>

definition pad2 :: "int \<Rightarrow> string" where
  "pad2 n = (if length (str_int n) < 2 then CHR ''0'' # str_int n else str_int n)"

text \<open>\<open>log_prefix\<close> (line 54): the number is read, and formatted as a decimal, before
  the \<open>try\<close> block.\<close>

definition log_prefix :: "pydict \<Rightarrow> py_error + string" where
  "log_prefix track_info =
     (case dict_get track_info ''number'' of
        None \<Rightarrow> Inl KeyError
      | Some (PInt n) \<Rightarrow> Inr (''['' @ txt_track @ '' '' @ pad2 n @ '']'')
      | Some PNone \<Rightarrow> Inl TypeError
      | Some _ \<Rightarrow> Inl ValueError)"

text \<open>\<open>AudioProcessor._process_single_track\<close>: every exception of the \<open>try\<close> block
  becomes a result.\<close>

definition process_single_track :: "env \<Rightarrow> job \<Rightarrow> py_error + (bool \<times> string option)" where
  "process_single_track e args =
     (case log_prefix (fst args) of
        Inl err \<Rightarrow> Inl err
      | Inr prefix \<Rightarrow>
          Inr (case try_body e args of
                 Done \<Rightarrow> (True, None)
               | Called_process_error stderr \<Rightarrow>
                   (False, Some (prefix @ msg_ffmpeg_failed @ strip stderr @ msg_rule))
               | Other_exception trace \<Rightarrow> (False, Some (prefix @ msg_unknown @ trace))))"

text \<open>\<open>re.sub(r'[\\/*?:"<>|]', "_", s)\<close> and \<open>os.path.join(a, b)\<close>.\<close>

definition sanitize :: "string \<Rightarrow> string" where
  "sanitize s =
     map (\<lambda>c. if c \<in> set [CHR 0x5C, CHR ''/'', CHR ''*'', CHR ''?'', CHR '':'', CHR 0x22,
                              CHR ''<'', CHR ''>'', CHR ''|'']
                then CHR ''_'' else c) s"

definition path_join :: "string \<Rightarrow> string \<Rightarrow> string" where
  "path_join a b =
     (if startswith b ''/'' then b
      else if a = [] \<or> last a = CHR ''/'' then a @ b
      else a @ ''/'' @ b)"

text \<open>\<open>re.search(r"Duration: (\d{2}):(\d{2}):(\d{2})\.(\d{2})", s)\<close>, its four
  groups.\<close>

definition match_duration :: "string \<Rightarrow> (string \<times> string \<times> string \<times> string) option" where
  "match_duration s =
     (let r = drop 10 s
      in if startswith s ''Duration: '' \<and> 11 \<le> length r \<and>
            is_digit (r ! 0) \<and> is_digit (r ! 1) \<and> r ! 2 = CHR '':'' \<and>
            is_digit (r ! 3) \<and> is_digit (r ! 4) \<and> r ! 5 = CHR '':'' \<and>
            is_digit (r ! 6) \<and> is_digit (r ! 7) \<and> r ! 8 = CHR ''.'' \<and>
            is_digit (r ! 9) \<and> is_digit (r ! 10)
         then Some (take 2 r, take 2 (drop 3 r), take 2 (drop 6 r), take 2 (drop 9 r))
         else None)"

fun search_duration :: "string \<Rightarrow> (string \<times> string \<times> string \<times> string) option" where
  "search_duration [] = None"
| "search_duration (c # cs) =
     (case match_duration (c # cs) of Some g \<Rightarrow> Some g | None \<Rightarrow> search_duration cs)"

text \<open>Line 79: the end time of the last track, written into its object.\<close>

definition set_last_end_time :: "string \<Rightarrow> nat list \<Rightarrow> pydict list \<Rightarrow> pydict list" where
  "set_last_end_time stderr track_list h =
     (case search_duration stderr of
        None \<Rightarrow> h
      | Some (hh, mm, ss, hs) \<Rightarrow>
          h[last track_list :=
              dict_set ''end_time''
                (PFloat (of_int (int_of_digits hh * 3600 + int_of_digits mm * 60 + int_of_digits ss)
                         + of_int (int_of_digits hs) / 100))
                (h ! last track_list)])"

text \<open>
  The track jobs, one after the other. In the sequential branch (\<open>announce\<close>) the title
  of the track is read for the progress line before its job runs. With a pool the jobs
  run in an order of their own; the trace lists them in the order of the list, as
  \<open>pool.map\<close> returns their results.
\<close>

fun run_jobs :: "env \<Rightarrow> bool \<Rightarrow> job list \<Rightarrow> event list \<times> (py_error + (bool \<times> string option) list)" where
  "run_jobs e announce [] = ([], Inr [])"
| "run_jobs e announce (args # rest) =
     (if announce \<and> dict_get (fst args) ''title'' = None then ([], Inl KeyError)
      else (case process_single_track e args of
              Inl err \<Rightarrow> ([], Inl err)
            | Inr res \<Rightarrow>
                (case run_jobs e announce rest of
                   (tr, Inl err) \<Rightarrow> (Split args # tr, Inl err)
                 | (tr, Inr results) \<Rightarrow> (Split args # tr, Inr (res # results)))))"

text \<open>Lines 91 to 94. A diagnostic that is not a string makes \<open>join\<close> raise
  \<open>TypeError\<close>.\<close>

definition failed_tracks :: "(bool \<times> string option) list \<Rightarrow> string option list" where
  "failed_tracks results = map snd (filter (\<lambda>res. \<not> fst res) results)"

definition aggregate :: "(bool \<times> string option) list \<Rightarrow> py_error + (bool \<times> string option)" where
  "aggregate results =
     (if failed_tracks results \<noteq> []
      then (if None \<in> set (failed_tracks results) then Inl TypeError
            else Inr (False, Some (join_sep CHR 0x0A (map the (failed_tracks results)))))
      else Inr (True, None))"

text \<open>Line 69: the title under which the album is filed (\<open>re.sub\<close> wants a string), and
  the output directory.\<close>

definition album_title_of :: "pydict \<Rightarrow> py_error + string" where
  "album_title_of album_info =
     (case dict_get album_info ''title'' of
        None \<Rightarrow> Inr (sanitize ''Untitled Album'')
      | Some (PStr t) \<Rightarrow> Inr (sanitize t)
      | Some _ \<Rightarrow> Inl TypeError)"

definition output_path_of :: "string option \<Rightarrow> string \<Rightarrow> string \<Rightarrow> string" where
  "output_path_of output_dir source_dir album_title =
     (case output_dir of
        None \<Rightarrow> path_join source_dir album_title
      | Some d \<Rightarrow> if d = [] then path_join source_dir album_title else d)"

text \<open>Line 81: one job for each entry of the track list.\<close>

definition tasks_args_of :: "pydict list \<Rightarrow> pydict \<Rightarrow> string \<Rightarrow> string \<Rightarrow> nat list \<Rightarrow> job list" where
  "tasks_args_of h album_info input_audio_file output_path track_list =
     map (\<lambda>track. (h ! track, album_info, input_audio_file, output_path, length track_list))
       track_list"

text \<open>
  \<open>AudioProcessor.process_album\<close>, with \<open>self.output_dir\<close> as its first argument;
  \<open>album_info\<close> and \<open>track_list\<close> are its parameters \<open>album_data\<close> and
  \<open>tracks_data\<close>. The tracks are references into the store, as the parser returns them.
  The result is the trace of the effects attempted, the store, and what the call returns
  or raises.
\<close>

definition process_album ::
  "env \<Rightarrow> string option \<Rightarrow> pydict \<Rightarrow> nat list \<Rightarrow> pydict list \<Rightarrow> string \<Rightarrow> bool
    \<Rightarrow> event list \<times> pydict list \<times> (py_error + (bool \<times> string option))" where
  "process_album e output_dir album_info track_list h source_dir use_track_concurrency =
     (case album_title_of album_info of
        Inl err \<Rightarrow> ([], h, Inl err)
      | Inr album_title \<Rightarrow>
          (let output_path = output_path_of output_dir source_dir album_title
           in if \<not> makedirs e output_path then ([Makedirs output_path], h, Inl OSError)
              else (case dict_get album_info ''file'' of
                      None \<Rightarrow> ([Makedirs output_path], h, Inl KeyError)
                    | Some (PStr f) \<Rightarrow>
                        (let input_audio_file = path_join source_dir f
                         in if track_list = []
                            then ([Makedirs output_path], h, Inr (False, Some msg_empty_tracks))
                            else (let h' = set_last_end_time (ffmpeg_probe e input_audio_file) track_list h;
                                      tasks_args = tasks_args_of h' album_info input_audio_file
                                                     output_path track_list;
                                      pooled = (use_track_concurrency \<and> 1 < length track_list);
                                      cores = min (cpu_count e) (min (int (length track_list)) 4);
                                      opened = (if pooled then [Pool_open cores] else [])
                                  in (case run_jobs e (\<not> pooled) tasks_args of
                                        (tr, Inl err) \<Rightarrow>
                                          (Makedirs output_path # Probe input_audio_file # opened @ tr,
                                           h', Inl err)
                                      | (tr, Inr results) \<Rightarrow>
                                          (Makedirs output_path # Probe input_audio_file # opened @ tr,
                                           h', aggregate results))))
                    | Some _ \<Rightarrow> ([Makedirs output_path], h, Inl TypeError))))"

section \<open>core/cli.py\<close>

text \<open>
  Lines 144 to 152 of \<open>Cli.run\<close>, for the task list of a batch (not empty there): the
  size of the album pool, if one is opened, and the arguments with which
  \<open>process_album_worker\<close> is called, a path and the flag that the worker hands on
  unchanged to \<open>process_album\<close> (line 63).
\<close>

definition dispatch_albums :: "env \<Rightarrow> string list \<Rightarrow> int option \<times> (string \<times> bool) list" where
  "dispatch_albums e tasks =
     (let is_concurrent = (1 < length tasks)
      in if is_concurrent
         then (Some (min (cpu_count e) (min (int (length tasks)) 4)),
               map (\<lambda>task_path. (task_path, False)) tasks)
         else (None, map (\<lambda>task_path. (task_path, True)) tasks))"

section \<open>Notions used to state the properties\<close>

text \<open>A timestamp "of the form mm:ss:ff with integer fields": three fields separated by
  two colons, each of them accepted by \<open>int\<close>, with values \<open>m\<close>, \<open>s\<close> and \<open>f\<close>.\<close>

definition timestamp_form :: "string \<Rightarrow> int \<Rightarrow> int \<Rightarrow> int \<Rightarrow> bool" where
  "timestamp_form t m s f =
     (\<exists>ma sa fa. t = ma @ CHR '':'' # sa @ CHR '':'' # fa \<and>
        CHR '':'' \<notin> set ma \<and> CHR '':'' \<notin> set sa \<and> CHR '':'' \<notin> set fa \<and>
        py_int ma = Some m \<and> py_int sa = Some s \<and> py_int fa = Some f)"

text \<open>The directives of a cue text, in order, and those with the command \<open>TRACK\<close>; a
  \<open>TRACK\<close> directive is numbered when its argument begins with a digit, and only then
  does it start a track.\<close>

definition directives :: "string list \<Rightarrow> (string \<times> string) list" where
  "directives cue_lines = List.map_filter directive cue_lines"

definition track_directives :: "string list \<Rightarrow> (string \<times> string) list" where
  "track_directives cue_lines = filter (\<lambda>d. fst d = ''TRACK'') (directives cue_lines)"

definition numbered :: "string \<times> string \<Rightarrow> bool" where
  "numbered d = (match_digits (snd d) \<noteq> None)"

text \<open>The loop of \<open>parse\<close> over the directives that the lines give (see \<open>scan_run\<close>).\<close>

fun run :: "pstate \<Rightarrow> (string \<times> string) list \<Rightarrow> py_error + pstate" where
  "run st [] = Inr st"
| "run st (d # ds) =
     (case exec_command st (fst d) (snd d) of Inl e \<Rightarrow> Inl e | Inr st' \<Rightarrow> run st' ds)"

text \<open>A track record has a start time when an \<open>INDEX\<close> directive has set it: the code
  takes an \<open>INDEX\<close> directive when its argument begins with \<open>01\<close> and has a second
  token, and the conversion of that token must not leave the float range.\<close>

definition has_start :: "pydict \<Rightarrow> bool" where
  "has_start d = (dict_get d ''start_time'' \<noteq> None)"





text \<open>Two stores that differ at most in the \<open>'end_time'\<close> entries of their objects.\<close>

definition same_but_end :: "pydict list \<Rightarrow> pydict list \<Rightarrow> bool" where
  "same_but_end h h' =
     (length h' = length h \<and> (\<forall>r k. k \<noteq> ''end_time'' \<longrightarrow> dict_get (h' ! r) k = dict_get (h ! r) k))"


text \<open>Invariants of the loop. Objects are never empty, \<open>current_track_info\<close> is the
  object created last, and the list holds references into the store (\<open>wf\<close>). A step
  other than \<open>TRACK\<close> changes neither the list, nor the current reference, nor a
  number, and removes no start time (\<open>minor\<close>). While every \<open>TRACK\<close> directive is
  numbered the list is \<open>[0..<n]\<close> for the \<open>n + 1\<close> objects of the store, whose
  numbers are \<open>nums\<close> (\<open>built\<close>). Before the first numbered \<open>TRACK\<close> directive
  there is no object at all (\<open>idle\<close>).\<close>

definition wf :: "pstate \<Rightarrow> bool" where
  "wf st =
     ((\<forall>d\<in>set (store st). d \<noteq> []) \<and>
      (case current_track_info st of
         None \<Rightarrow> store st = [] \<and> tracks_data st = []
       | Some r \<Rightarrow> Suc r = length (store st)) \<and>
      (\<forall>t\<in>set (tracks_data st). t < length (store st)))"

definition minor :: "pstate \<Rightarrow> pstate \<Rightarrow> bool" where
  "minor st st' =
     (tracks_data st' = tracks_data st \<and> current_track_info st' = current_track_info st \<and>
      length (store st') = length (store st) \<and>
      (\<forall>r. dict_get (store st' ! r) ''number'' = dict_get (store st ! r) ''number'') \<and>
      (\<forall>r. has_start (store st ! r) \<longrightarrow> has_start (store st' ! r)) \<and>
      (\<forall>r<length (store st). store st ! r \<noteq> [] \<longrightarrow> store st' ! r \<noteq> []))"




definition idle :: "pstate \<Rightarrow> bool" where
  "idle st = (current_track_info st = None \<and> store st = [] \<and> tracks_data st = [])"

text \<open>The commands that can write the album record, and the key that \<open>TITLE\<close> and
  \<open>PERFORMER\<close> write.\<close>

definition album_command :: "string \<Rightarrow> bool" where
  "album_command command = (command \<in> {''TITLE'', ''PERFORMER'', ''FILE'', ''REM''})"

definition text_key :: "string \<Rightarrow> string option" where
  "text_key command =
     (if command = ''TITLE'' then Some ''title''
      else if command = ''PERFORMER'' then Some ''performer'' else None)"

definition has_key :: "pydict \<Rightarrow> string \<Rightarrow> bool" where
  "has_key d k = (dict_get d k \<noteq> None)"

definition unnumbered_tracks :: "(string \<times> string) list \<Rightarrow> bool" where
  "unnumbered_tracks ds = (\<forall>d\<in>set ds. fst d = ''TRACK'' \<longrightarrow> \<not> numbered d)"

text \<open>An outside world in which nothing fails, to run the program on examples.\<close>

definition quiet_env :: env where
  "quiet_env = \<lparr>cpu_count = 8, makedirs = (\<lambda>p. True), ffmpeg_probe = (\<lambda>f. []),
                 try_body = (\<lambda>args. Done)\<rparr>"


text \<open>An outside world in which ffmpeg fails on the tracks whose numbers are listed.\<close>

definition failing_env :: "int list \<Rightarrow> env" where
  "failing_env bad =
     quiet_env\<lparr>try_body :=
       (\<lambda>args. case dict_get (fst args) ''number'' of
                  Some (PInt n) \<Rightarrow> if n \<in> set bad then Called_process_error (''no '' @ str_int n) else Done
                | _ \<Rightarrow> Done)\<rparr>"

text \<open>A call of \<open>process_album\<close> gets as far as its track list when the album title is a
  string or absent, the output directory can be created and the album record names its
  file.\<close>

definition reaches_tracks :: "env \<Rightarrow> string option \<Rightarrow> pydict \<Rightarrow> string \<Rightarrow> bool" where
  "reaches_tracks e output_dir album_info source_dir =
     (case album_title_of album_info of
        Inl err \<Rightarrow> False
      | Inr t \<Rightarrow>
          makedirs e (output_path_of output_dir source_dir t) \<and>
          (case dict_get album_info ''file'' of Some (PStr f) \<Rightarrow> True | _ \<Rightarrow> False))"

text \<open>The size of a pool for \<open>n\<close> tasks: \<open>min(cpu_count(), n, 4)\<close>.\<close>

definition pool_size :: "env \<Rightarrow> nat \<Rightarrow> int" where
  "pool_size e n = min (cpu_count e) (min (int n) 4)"

section \<open>Properties of the cue parser\<close>

subsection \<open>Splitting at a separator\<close>








subsection \<open>The conversion of a timestamp\<close>




text \<open>Fields of decimal digits, as in \<open>02:03:37\<close>, are integer fields, with the values
  of their digits.\<close>

lemma digit_not_other:
  "is_digit c \<Longrightarrow> \<not> is_cspace c \<and> c \<noteq> CHR ''-'' \<and> c \<noteq> CHR ''+'' \<and> c \<noteq> CHR ''_'' \<and> c \<noteq> CHR '':''"
  by (auto simp: is_digit_def is_cspace_def)

lemma literal_digits_plain:
  "ds \<noteq> [] \<Longrightarrow> \<forall>c\<in>set ds. is_digit c \<Longrightarrow> literal_digits ds = Some ds"
proof (induction ds rule: literal_digits.induct)
  case 1
  then show ?case by simp
next
  case (2 c)
  then show ?case by simp
next
  case (3 c d cs)
  from "3.prems" have "is_digit c" "is_digit d" by simp_all
  then have "d \<noteq> CHR ''_''" by (simp add: digit_not_other)
  with "3.IH" "3.prems" \<open>is_digit c\<close> show ?case by simp
qed

lemma strip_by_plain:
  assumes "s \<noteq> []" "\<not> p (hd s)" "\<not> p (last s)"
  shows "strip_by p s = s"
proof -
  from assms have "dropWhile p s = s" by (cases s) auto
  moreover from assms have "dropWhile p (rev s) = rev s"
    by (cases "rev s") (auto simp: last_rev hd_rev dest: arg_cong[of _ _ hd])
  ultimately show ?thesis by (simp add: strip_by_def)
qed

lemma py_int_digits:
  assumes "ds \<noteq> []" "\<forall>c\<in>set ds. is_digit c"
  shows "py_int ds = Some (int_of_digits ds)"
proof -
  from assms have "is_digit (hd ds)" "is_digit (last ds)" by simp_all
  then have h: "\<not> is_cspace (hd ds)" "\<not> is_cspace (last ds)"
    "hd ds \<noteq> CHR ''-''" "hd ds \<noteq> CHR ''+''"
    by (simp_all add: digit_not_other)
  with assms(1) have s: "strip_by is_cspace ds = ds" by (simp add: strip_by_plain)
  from assms have l: "literal_digits ds = Some ds" by (rule literal_digits_plain)
  from assms(1) obtain c cs where ds: "ds = c # cs" by (cases ds) auto
  with h s l show ?thesis by (simp add: py_int_def)
qed

lemma digits_timestamp_form:
  assumes "ma \<noteq> []" "sa \<noteq> []" "fa \<noteq> []" "\<forall>c\<in>set (ma @ sa @ fa). is_digit c"
  shows "timestamp_form (ma @ CHR '':'' # sa @ CHR '':'' # fa)
           (int_of_digits ma) (int_of_digits sa) (int_of_digits fa)"
proof -
  from assms(4) have "CHR '':'' \<notin> set ma" "CHR '':'' \<notin> set sa" "CHR '':'' \<notin> set fa"
    using digit_not_other by auto
  moreover from assms have "py_int ma = Some (int_of_digits ma)" "py_int sa = Some (int_of_digits sa)"
    "py_int fa = Some (int_of_digits fa)"
    by (simp_all add: py_int_digits)
  ultimately show ?thesis unfolding timestamp_form_def by blast
qed








subsection \<open>A \<open>TRACK\<close> directive without a number\<close>

text \<open>
  C9. In the cue text below the last \<open>TRACK\<close> directive has no number. When the loop
  ends the list holds the one track, appended by that directive, and the same track is
  still the current one; line 76 appends it again. The list returned holds the same
  reference twice: two records from one numbered \<open>TRACK\<close> directive.
\<close>

theorem unnumbered_track_duplicates_record:
  "\<not> numbered (last (track_directives [''TRACK 01 AUDIO'', ''INDEX 01 00:00:00'', ''TRACK X AUDIO'']))
   \<and> scan initial [''TRACK 01 AUDIO'', ''INDEX 01 00:00:00'', ''TRACK X AUDIO'']
       = Inr \<lparr>album_data = [], tracks_data = [0],
              store = [[(''number'', PInt 1), (''performer'', PNone),
                        (''title'', PStr (default_title 1)), (''start_time'', PFloat 0)]],
              current_track_info = Some 0\<rparr>
   \<and> parse [''TRACK 01 AUDIO'', ''INDEX 01 00:00:00'', ''TRACK X AUDIO'']
       = Inr \<lparr>album = [], tracks = [0, 0],
              objects = [[(''number'', PInt 1), (''performer'', PNone),
                          (''title'', PStr (default_title 1)), (''start_time'', PFloat 0),
                          (''end_time'', PNone)]]\<rparr>
   \<and> length (filter numbered
        (track_directives [''TRACK 01 AUDIO'', ''INDEX 01 00:00:00'', ''TRACK X AUDIO''])) = 1"
  by code_simp

subsection \<open>Dictionaries and the loop over the directives\<close>

lemma dict_get_set: "dict_get (dict_set k v d) k' = (if k' = k then Some v else dict_get d k')"
  by (simp add: dict_get_def dict_set_def update_conv')

lemma dict_set_ne: "dict_set k v d \<noteq> []"
  by (cases d) (auto simp: dict_set_def)

lemma directives_Cons:
  "directives (l # ls) = (case directive l of None \<Rightarrow> directives ls | Some d \<Rightarrow> d # directives ls)"
  by (simp add: directives_def List.map_filter_simps split: option.splits)

lemma directives_Nil: "directives [] = []"
  by (simp add: directives_def List.map_filter_simps)

lemma scan_run: "scan st cue_lines = run st (directives cue_lines)"
proof (induction cue_lines arbitrary: st)
  case Nil
  then show ?case by (simp add: directives_Nil)
next
  case (Cons l ls)
  show ?case
  proof (cases "directive l")
    case None
    with Cons show ?thesis by (simp add: directives_Cons exec_line_def)
  next
    case (Some d)
    with Cons show ?thesis
      by (cases d) (simp add: directives_Cons exec_line_def split: sum.splits)
  qed
qed

lemma parse_eq:
  "parse cue_lines =
     (case scan initial cue_lines of
        Inl e \<Rightarrow> Inl e
      | Inr st0 \<Rightarrow>
          (case end_times (tracks_data (finish st0)) (store (finish st0))
                  [0..<length (tracks_data (finish st0))] of
             Inl e \<Rightarrow> Inl e
           | Inr h \<Rightarrow> Inr \<lparr>album = album_data (finish st0), tracks = tracks_data (finish st0), objects = h\<rparr>))"
proof (cases "cue_lines = []")
  case True
  then show ?thesis
    by (simp add: parse_def initial_def finish_def truthy_current_def)
next
  case False
  then show ?thesis
    by (auto simp: parse_def Let_def split: sum.splits)
qed

subsection \<open>The derivation of the end times\<close>

lemma same_but_end_refl: "same_but_end h h"
  by (simp add: same_but_end_def)

lemma same_but_end_trans: "same_but_end h h' \<Longrightarrow> same_but_end h' h'' \<Longrightarrow> same_but_end h h''"
  by (simp add: same_but_end_def)

lemma same_but_end_update: "same_but_end h (h[r := dict_set ''end_time'' v (h ! r)])"
proof -
  have "dict_get (h[r := dict_set ''end_time'' v (h ! r)] ! r') k = dict_get (h ! r') k"
    if "k \<noteq> ''end_time''" for r' k
  proof (cases "r < length h")
    case True
    with that show ?thesis by (cases "r' = r") (simp_all add: dict_get_set)
  next
    case False
    then have "h[r := dict_set ''end_time'' v (h ! r)] = h" by (simp add: list_update_beyond)
    then show ?thesis by simp
  qed
  then show ?thesis by (simp add: same_but_end_def)
qed


lemma end_time_step_cases:
  "(end_time_step ts h i = Inl KeyError \<and> i + 1 < length ts \<and> \<not> has_start (h ! (ts ! (i + 1))))
   \<or> (\<exists>h'. end_time_step ts h i = Inr h' \<and> same_but_end h h'
         \<and> (i + 1 < length ts \<longrightarrow> has_start (h ! (ts ! (i + 1)))))"
  by (auto simp: end_time_step_def has_start_def same_but_end_update split: option.splits)



lemma store_finish: "store (finish st) = store st"
  by (simp add: finish_def)


subsection \<open>Invariants of the loop\<close>

lemma wf_initial: "wf initial"
  by (simp add: wf_def initial_def)

lemma wf_truthy: "wf st \<Longrightarrow> truthy_current st = (current_track_info st \<noteq> None)"
  by (auto simp: wf_def truthy_current_def split: option.splits)

lemma minor_refl: "minor st st"
  by (simp add: minor_def)

lemma minor_album_set: "minor st (album_set k v st)"
  by (simp add: minor_def album_set_def)

lemma minor_current_set:
  assumes "k \<noteq> ''number''"
  shows "minor st (current_set k v st)"
proof (cases "current_track_info st")
  case None
  then show ?thesis by (simp add: current_set_def minor_refl)
next
  case (Some c)
  let ?h = "(store st)[c := dict_set k v (store st ! c)]"
  have st': "current_set k v st = st\<lparr>store := ?h\<rparr>"
    using Some by (simp add: current_set_def)
  have nth: "?h ! r = (if r = c \<and> c < length (store st) then dict_set k v (store st ! c) else store st ! r)" for r
    by (cases "c < length (store st)") (auto simp: list_update_beyond)
  have "dict_get (?h ! r) ''number'' = dict_get (store st ! r) ''number''" for r
    using assms by (simp add: nth dict_get_set)
  moreover have "has_start (store st ! r) \<longrightarrow> has_start (?h ! r)" for r
    by (simp add: nth has_start_def dict_get_set)
  moreover have "store st ! r \<noteq> [] \<longrightarrow> ?h ! r \<noteq> []" for r
    by (simp add: nth dict_set_ne)
  ultimately show ?thesis
    unfolding st' minor_def by simp
qed


lemma wf_minor:
  assumes w: "wf st" and m: "minor st st'"
  shows "wf st'"
proof -
  from m have td: "tracks_data st' = tracks_data st"
    and cur: "current_track_info st' = current_track_info st"
    and len: "length (store st') = length (store st)"
    and ne: "\<And>r. r < length (store st) \<Longrightarrow> store st ! r \<noteq> [] \<Longrightarrow> store st' ! r \<noteq> []"
    by (simp_all add: minor_def)
  have a: "\<forall>d\<in>set (store st'). d \<noteq> []"
  proof
    fix d assume "d \<in> set (store st')"
    then obtain r where r: "r < length (store st')" "d = store st' ! r"
      by (auto simp: in_set_conv_nth)
    with len have rl: "r < length (store st)" by simp
    with w have "store st ! r \<noteq> []" by (simp add: wf_def)
    with rl r show "d \<noteq> []" by (simp add: ne)
  qed
  have e: "store st' = [] \<longleftrightarrow> store st = []"
    using len by (metis length_0_conv)
  have b: "case current_track_info st' of
         None \<Rightarrow> store st' = [] \<and> tracks_data st' = []
       | Some r \<Rightarrow> Suc r = length (store st')"
  proof (cases "current_track_info st")
    case None
    with w have "store st = [] \<and> tracks_data st = []" by (simp add: wf_def)
    with None cur td e show ?thesis by simp
  next
    case (Some r)
    with w have "Suc r = length (store st)" by (simp add: wf_def)
    with Some cur len show ?thesis by simp
  qed
  have c: "\<forall>t\<in>set (tracks_data st'). t < length (store st')"
    using w td len by (simp add: wf_def)
  from a b c show ?thesis unfolding wf_def by blast
qed

lemma lower_replaygain:
  assumes "startswith k ''REPLAYGAIN_''"
  shows "lower k \<noteq> ''number''"
proof -
  from assms obtain rest where "k = CHR ''R'' # rest"
    by (cases k) (auto simp: startswith_def)
  then show ?thesis
    by (simp add: lower_def lower_char_def upper_letters_def lower_letters_def)
qed

lemma minor_on_text: "key \<noteq> ''number'' \<Longrightarrow> minor st (on_text key st args)"
  by (simp add: on_text_def Let_def minor_current_set minor_album_set)

lemma minor_on_file: "minor st (on_file st args)"
  by (simp add: on_file_def minor_album_set minor_refl split: option.splits list.splits)

lemma minor_on_rem: "minor st (on_rem st args)"
  by (simp add: on_rem_def Let_def minor_current_set minor_album_set minor_refl lower_replaygain)

lemma minor_on_index: "on_index st args = Inr st' \<Longrightarrow> minor st st'"
  by (auto simp: on_index_def minor_current_set minor_refl split: if_splits sum.splits)

lemma minor_exec:
  "command \<noteq> ''TRACK'' \<Longrightarrow> exec_command st command args = Inr st' \<Longrightarrow> minor st st'"
  by (auto simp: exec_command_def minor_on_text minor_on_file minor_on_rem minor_refl
      minor_on_index split: if_splits)



lemma on_track_unnumbered: "match_digits args = None \<Longrightarrow> on_track st args = finish st"
  by (simp add: on_track_def finish_def)

lemma on_track_numbered:
  assumes "wf st" "match_digits args = Some ds"
  shows "tracks_data (on_track st args) =
           tracks_data st @ (case current_track_info st of None \<Rightarrow> [] | Some r \<Rightarrow> [r])"
    and "store (on_track st args) = store st @ [new_track (album_data st) ds]"
    and "current_track_info (on_track st args) = Some (length (store st))"
    and "album_data (on_track st args) = album_data st"
  using assms by (auto simp: on_track_def wf_truthy split: option.splits)


lemma wf_on_track_numbered:
  assumes "wf st" "match_digits args = Some ds"
  shows "wf (on_track st args)"
proof -
  note t = on_track_numbered[OF assms]
  have "\<forall>d\<in>set (store (on_track st args)). d \<noteq> []"
    using assms(1) by (auto simp: t wf_def new_track_def)
  moreover have "\<forall>r\<in>set (tracks_data (on_track st args)). r < length (store (on_track st args))"
    using assms(1) by (auto simp: t wf_def less_Suc_eq split: option.splits)
  ultimately show ?thesis
    by (simp add: wf_def t(3)) (simp add: t(2))
qed





lemma wf_exec:
  assumes "wf st" "exec_command st command args = Inr st'"
  shows "wf st'"
proof (cases "command = ''TRACK''")
  case True
  with assms(2) have st': "st' = on_track st args" by (simp add: exec_command_def)
  show ?thesis
  proof (cases "match_digits args")
    case None
    then have "st' = finish st" using st' by (simp add: on_track_unnumbered)
    with assms(1) show ?thesis
      by (auto simp: finish_def wf_def truthy_current_def split: option.splits)
  next
    case (Some ds)
    with assms(1) st' show ?thesis by (simp add: wf_on_track_numbered)
  qed
next
  case False
  then have "minor st st'" using assms(2) by (rule minor_exec)
  with assms(1) show ?thesis by (rule wf_minor)
qed

lemma wf_run: "wf st \<Longrightarrow> run st ds = Inr st' \<Longrightarrow> wf st'"
proof (induction ds arbitrary: st)
  case Nil
  then show ?case by simp
next
  case (Cons d ds)
  from Cons.prems(2) obtain st1 where s1: "exec_command st (fst d) (snd d) = Inr st1"
    and r: "run st1 ds = Inr st'"
    by (auto split: sum.splits)
  from Cons.prems(1) s1 have "wf st1" by (rule wf_exec)
  then show ?case using r by (rule Cons.IH)
qed

lemma current_stays:
  assumes "exec_command st command args = Inr st'" "current_track_info st \<noteq> None"
  shows "current_track_info st' \<noteq> None"
proof (cases "command = ''TRACK''")
  case True
  with assms(1) have "st' = on_track st args" by (simp add: exec_command_def)
  with assms(2) show ?thesis
    by (auto simp: on_track_def split: option.splits)
next
  case False
  then have "minor st st'" using assms(1) by (rule minor_exec)
  with assms(2) show ?thesis by (simp add: minor_def)
qed

lemma current_after_numbered:
  "numbered (''TRACK'', args) \<Longrightarrow> exec_command st ''TRACK'' args = Inr st'
   \<Longrightarrow> current_track_info st' \<noteq> None"
  by (auto simp: exec_command_def on_track_def numbered_def split: option.splits)

lemma run_current_some:
  assumes "run st ds = Inr st'"
    and "current_track_info st \<noteq> None \<or> (\<exists>d\<in>set ds. fst d = ''TRACK'' \<and> numbered d)"
  shows "current_track_info st' \<noteq> None"
  using assms
proof (induction ds arbitrary: st)
  case Nil
  then show ?case by simp
next
  case (Cons d ds)
  obtain command args where d: "d = (command, args)" by (cases d)
  from Cons.prems(1) d obtain st1 where s1: "exec_command st command args = Inr st1"
    and r: "run st1 ds = Inr st'"
    by (auto split: sum.splits)
  have "current_track_info st1 \<noteq> None \<or> (\<exists>d\<in>set ds. fst d = ''TRACK'' \<and> numbered d)"
  proof (cases "current_track_info st \<noteq> None")
    case True
    with s1 show ?thesis by (simp add: current_stays)
  next
    case False
    with Cons.prems(2) have "(fst d = ''TRACK'' \<and> numbered d) \<or> (\<exists>d\<in>set ds. fst d = ''TRACK'' \<and> numbered d)"
      by auto
    then show ?thesis
    proof
      assume "fst d = ''TRACK'' \<and> numbered d"
      with d have c: "command = ''TRACK''" and n: "numbered (''TRACK'', args)" by auto
      from s1 c have "exec_command st ''TRACK'' args = Inr st1" by simp
      with n have "current_track_info st1 \<noteq> None" by (rule current_after_numbered)
      then show ?thesis by simp
    qed simp
  qed
  with r show ?case by (rule Cons.IH)
qed

lemma idle_not_truthy: "idle st \<Longrightarrow> \<not> truthy_current st"
  by (simp add: idle_def truthy_current_def)

lemma six_or_other:
  "c = a1 \<or> c = a2 \<or> c = a3 \<or> c = a4 \<or> c = a5 \<or> c = a6 \<or> c \<notin> {a1, a2, a3, a4, a5, a6}"
  by auto

lemma idle_exec:
  assumes "idle st" "command = ''TRACK'' \<longrightarrow> \<not> numbered (command, args)"
  shows "\<exists>st'. exec_command st command args = Inr st' \<and> idle st'
           \<and> (\<not> album_command command \<longrightarrow> album_data st' = album_data st)
           \<and> (\<forall>k. has_key (album_data st) k \<longrightarrow> has_key (album_data st') k)
           \<and> (\<forall>k. text_key command = Some k \<longrightarrow> has_key (album_data st') k)"
proof -
  note nt = idle_not_truthy[OF assms(1)]
  have keep: "idle (album_set k v st)"
    "\<forall>k'. has_key (album_data st) k' \<longrightarrow> has_key (album_data (album_set k v st)) k'"
    "has_key (album_data (album_set k v st)) k" for k v
    using assms(1) by (simp_all add: idle_def album_set_def dict_get_set has_key_def)
  have "command = ''TRACK'' \<or> command = ''FILE'' \<or> command = ''TITLE'' \<or>
        command = ''PERFORMER'' \<or> command = ''INDEX'' \<or> command = ''REM'' \<or>
        command \<notin> {''TRACK'', ''FILE'', ''TITLE'', ''PERFORMER'', ''INDEX'', ''REM''}"
    by (rule six_or_other)
  then consider (c_track) "command = ''TRACK''" | (c_file) "command = ''FILE''" | (c_title) "command = ''TITLE''"
    | (c_performer) "command = ''PERFORMER''" | (c_index) "command = ''INDEX''" | (c_rem) "command = ''REM''"
    | (c_other) "command \<notin> {''TRACK'', ''FILE'', ''TITLE'', ''PERFORMER'', ''INDEX'', ''REM''}"
    by (elim disjE)
  then show ?thesis
  proof cases
    case c_track
    with assms(2) have "match_digits args = None" by (simp add: numbered_def)
    then have "on_track st args = st"
      using nt by (simp add: on_track_unnumbered finish_def)
    with c_track assms(1) show ?thesis by (simp add: exec_command_def text_key_def)
  next
    case c_file
    then have "exec_command st command args = Inr (on_file st args)" by (simp add: exec_command_def)
    moreover have "idle (on_file st args) \<and>
        (\<forall>k. has_key (album_data st) k \<longrightarrow> has_key (album_data (on_file st args)) k)"
      using assms(1) keep by (simp add: on_file_def split: option.splits list.splits)
    ultimately show ?thesis using c_file by (simp add: text_key_def album_command_def)
  next
    case c_title
    then have "exec_command st command args = Inr (on_text ''title'' st args)"
      by (simp add: exec_command_def)
    moreover have "on_text ''title'' st args
        = album_set ''title'' (PStr (strip_by (\<lambda>c. c = CHR 0x22) args)) st"
      using nt by (simp add: on_text_def)
    ultimately show ?thesis using c_title keep by (simp add: text_key_def album_command_def)
  next
    case c_performer
    then have "exec_command st command args = Inr (on_text ''performer'' st args)"
      by (simp add: exec_command_def)
    moreover have "on_text ''performer'' st args
        = album_set ''performer'' (PStr (strip_by (\<lambda>c. c = CHR 0x22) args)) st"
      using nt by (simp add: on_text_def)
    ultimately show ?thesis using c_performer keep by (simp add: text_key_def album_command_def)
  next
    case c_index
    then have "exec_command st command args = Inr st"
      using nt by (simp add: exec_command_def on_index_def)
    with c_index assms(1) show ?thesis by (simp add: text_key_def)
  next
    case c_rem
    then have "exec_command st command args = Inr (on_rem st args)" by (simp add: exec_command_def)
    moreover have "idle (on_rem st args) \<and>
        (\<forall>k. has_key (album_data st) k \<longrightarrow> has_key (album_data (on_rem st args)) k)"
      using assms(1) keep nt by (simp add: on_rem_def Let_def)
    ultimately show ?thesis using c_rem by (simp add: text_key_def album_command_def)
  next
    case c_other
    then have "exec_command st command args = Inr st" by (simp add: exec_command_def)
    with c_other assms(1) show ?thesis by (simp add: text_key_def)
  qed
qed

lemma idle_run:
  assumes "idle st" "unnumbered_tracks ds"
  shows "\<exists>st'. run st ds = Inr st' \<and> idle st'
           \<and> ((\<forall>d\<in>set ds. \<not> album_command (fst d)) \<longrightarrow> album_data st' = album_data st)
           \<and> (\<forall>k. has_key (album_data st) k \<longrightarrow> has_key (album_data st') k)
           \<and> (\<forall>d\<in>set ds. \<forall>k. text_key (fst d) = Some k \<longrightarrow> has_key (album_data st') k)"
  using assms
proof (induction ds arbitrary: st)
  case Nil
  then show ?case by simp
next
  case (Cons d ds)
  obtain command args where d: "d = (command, args)" by (cases d)
  from Cons.prems(2) d have "command = ''TRACK'' \<longrightarrow> \<not> numbered (command, args)"
    by (simp add: unnumbered_tracks_def)
  from idle_exec[OF Cons.prems(1) this] obtain st1 where
    s1: "exec_command st command args = Inr st1" and i1: "idle st1"
    and a1: "\<not> album_command command \<longrightarrow> album_data st1 = album_data st"
    and k1: "\<forall>k. has_key (album_data st) k \<longrightarrow> has_key (album_data st1) k"
    and t1: "\<forall>k. text_key command = Some k \<longrightarrow> has_key (album_data st1) k"
    by blast
  from Cons.prems(2) have "unnumbered_tracks ds" by (simp add: unnumbered_tracks_def)
  from Cons.IH[OF i1 this] obtain st' where
    r: "run st1 ds = Inr st'" and i': "idle st'"
    and a': "(\<forall>d\<in>set ds. \<not> album_command (fst d)) \<longrightarrow> album_data st' = album_data st1"
    and k': "\<forall>k. has_key (album_data st1) k \<longrightarrow> has_key (album_data st') k"
    and t': "\<forall>d\<in>set ds. \<forall>k. text_key (fst d) = Some k \<longrightarrow> has_key (album_data st') k"
    by blast
  have "run st (d # ds) = Inr st'" using s1 r d by simp
  moreover note i'
  moreover have "(\<forall>d\<in>set (d # ds). \<not> album_command (fst d)) \<longrightarrow> album_data st' = album_data st"
    using a1 a' d by simp
  moreover have "\<forall>k. has_key (album_data st) k \<longrightarrow> has_key (album_data st') k"
    using k1 k' by blast
  moreover have "\<forall>d\<in>set (d # ds). \<forall>k. text_key (fst d) = Some k \<longrightarrow> has_key (album_data st') k"
    using t1 t' k' d by auto
  ultimately show ?case by (intro exI[of _ st'] conjI)
qed

subsection \<open>Valid cue texts\<close>







subsection \<open>Missing start times\<close>



subsection \<open>Cue texts without tracks\<close>

text \<open>No track is produced exactly when no \<open>TRACK\<close> directive is numbered.\<close>

lemma no_tracks_iff_unnumbered:
  assumes "scan initial cue_lines = Inr st"
  shows "tracks_data (finish st) = [] \<longleftrightarrow> (\<forall>d\<in>set (track_directives cue_lines). \<not> numbered d)"
proof
  assume e: "tracks_data (finish st) = []"
  show "\<forall>d\<in>set (track_directives cue_lines). \<not> numbered d"
  proof (rule ccontr)
    assume "\<not> (\<forall>d\<in>set (track_directives cue_lines). \<not> numbered d)"
    then obtain d where "d \<in> set (directives cue_lines)" "fst d = ''TRACK''" "numbered d"
      by (auto simp: track_directives_def)
    then have "\<exists>d\<in>set (directives cue_lines). fst d = ''TRACK'' \<and> numbered d"
      by blast
    with assms have "current_track_info st \<noteq> None"
      by (intro run_current_some[of initial "directives cue_lines"]) (simp_all add: scan_run)
    moreover from assms have "wf st"
      using wf_run[OF wf_initial] by (simp add: scan_run)
    ultimately have "truthy_current st" by (simp add: wf_truthy)
    then have "tracks_data (finish st) \<noteq> []" by (simp add: finish_def)
    with e show False by simp
  qed
next
  assume "\<forall>d\<in>set (track_directives cue_lines). \<not> numbered d"
  then have "unnumbered_tracks (directives cue_lines)"
    by (auto simp: unnumbered_tracks_def track_directives_def)
  moreover have "idle initial" by (simp add: idle_def initial_def)
  ultimately obtain st' where "run initial (directives cue_lines) = Inr st'" "idle st'"
    using idle_run by blast
  with assms have "idle st" by (simp add: scan_run)
  then show "tracks_data (finish st) = []"
    by (simp add: finish_def idle_not_truthy) (simp add: idle_def)
qed

text \<open>
  C3, as the code has it. From a cue text that produces no track, parse returns (it
  raises nothing) an empty track list and the album record as the album directives have
  filled it: empty when the text has no \<open>TITLE\<close>, \<open>PERFORMER\<close>, \<open>FILE\<close> or \<open>REM\<close>
  directive, with a title after a \<open>TITLE\<close> directive and a performer after a
  \<open>PERFORMER\<close> directive.
\<close>

theorem no_tracks_result:
  assumes "\<forall>d\<in>set (track_directives cue_lines). \<not> numbered d"
  shows "\<exists>a. parse cue_lines = Inr \<lparr>album = a, tracks = [], objects = []\<rparr>
           \<and> ((\<forall>d\<in>set (directives cue_lines). \<not> album_command (fst d)) \<longrightarrow> a = [])
           \<and> (\<forall>d\<in>set (directives cue_lines). \<forall>k. text_key (fst d) = Some k \<longrightarrow> has_key a k)"
proof -
  from assms have "unnumbered_tracks (directives cue_lines)"
    by (auto simp: unnumbered_tracks_def track_directives_def)
  moreover have i0: "idle initial" by (simp add: idle_def initial_def)
  ultimately obtain st where r: "run initial (directives cue_lines) = Inr st" and i: "idle st"
    and a: "(\<forall>d\<in>set (directives cue_lines). \<not> album_command (fst d)) \<longrightarrow> album_data st = album_data initial"
    and k: "\<forall>d\<in>set (directives cue_lines). \<forall>k. text_key (fst d) = Some k \<longrightarrow> has_key (album_data st) k"
    using idle_run[of initial "directives cue_lines"] by blast
  from i have f: "finish st = st" by (simp add: finish_def idle_not_truthy)
  from i have "parse cue_lines = Inr \<lparr>album = album_data st, tracks = [], objects = []\<rparr>"
    using r by (simp add: parse_eq scan_run f idle_def)
  moreover from a have "(\<forall>d\<in>set (directives cue_lines). \<not> album_command (fst d)) \<longrightarrow> album_data st = []"
    by (simp add: initial_def)
  ultimately show ?thesis using k by blast
qed

text \<open>A text whose only \<open>TRACK\<close> directive has no number: no track, and an album
  record with a performer and a title.\<close>

theorem no_tracks_result_witness:
  "\<exists>a. parse [''PERFORMER \"A\"'', ''TRACK XX AUDIO'', ''TITLE \"B\"''] = Inr \<lparr>album = a, tracks = [], objects = []\<rparr>
        \<and> has_key a ''title'' \<and> has_key a ''performer''"
proof -
  let ?cue = "[''PERFORMER \"A\"'', ''TRACK XX AUDIO'', ''TITLE \"B\"'']"
  have u: "\<forall>d\<in>set (track_directives ?cue). \<not> numbered d" by code_simp
  have d: "directives ?cue = [(''PERFORMER'', ''\"A\"''), (''TRACK'', ''XX AUDIO''), (''TITLE'', ''\"B\"'')]"
    by code_simp
  from no_tracks_result[OF u] show ?thesis
    unfolding d by (auto simp: text_key_def)
qed

text \<open>C3 as stated fails on a text with a title and no track: the album record
  returned is not empty.\<close>

theorem album_kept_without_tracks:
  "parse [''TITLE \"x\"''] = Inr \<lparr>album = [(''title'', PStr ''x'')], tracks = [], objects = []\<rparr>
   \<and> [(''title'', PStr ''x'')] \<noteq> ([] :: pydict)"
  by code_simp

subsection \<open>End times of a list of different records\<close>

lemma end_time_step_other:
  "end_time_step ts h i = Inr h1 \<Longrightarrow> ts ! i \<noteq> r \<Longrightarrow> h1 ! r = h ! r"
  by (auto simp: end_time_step_def split: if_splits option.splits)

lemma end_time_step_sets:
  assumes "end_time_step ts h i = Inr h1" "ts ! i < length h"
  shows "dict_get (h1 ! (ts ! i)) ''end_time'' =
           (if i + 1 < length ts then dict_get (h ! (ts ! (i + 1))) ''start_time'' else Some PNone)"
  using assms by (auto simp: end_time_step_def dict_get_set split: if_splits option.splits)

lemma end_times_frame:
  "end_times ts h is = Inr h' \<Longrightarrow> \<forall>i\<in>set is. ts ! i \<noteq> r \<Longrightarrow> h' ! r = h ! r"
proof (induction "is" arbitrary: h)
  case Nil
  then show ?case by simp
next
  case (Cons i "is")
  from Cons.prems(1) obtain h1 where s: "end_time_step ts h i = Inr h1"
    and r: "end_times ts h1 is = Inr h'"
    by (auto split: sum.splits)
  from Cons.prems(2) have "h1 ! r = h ! r" using s by (simp add: end_time_step_other)
  moreover from Cons.prems(2) have "h' ! r = h1 ! r" using r by (simp add: Cons.IH)
  ultimately show ?case by simp
qed

lemma end_time_step_same: "end_time_step ts h i = Inr h1 \<Longrightarrow> same_but_end h h1"
  using end_time_step_cases[of ts h i] by auto

lemma end_times_chain:
  assumes "distinct ts" "\<forall>t\<in>set ts. t < length h"
    and "end_times ts h [j..<length ts] = Inr h'" "j \<le> i" "i < length ts"
  shows "dict_get (h' ! (ts ! i)) ''end_time'' =
           (if i + 1 < length ts then dict_get (h ! (ts ! (i + 1))) ''start_time'' else Some PNone)"
  using assms(2-)
proof (induction "length ts - j" arbitrary: j h)
  case 0
  then show ?case by simp
next
  case (Suc n)
  from Suc.prems(3,4) have jl: "j < length ts" by simp
  then have u: "[j..<length ts] = j # [Suc j..<length ts]" by (simp add: upt_conv_Cons)
  from Suc.prems(2) u obtain h1 where s: "end_time_step ts h j = Inr h1"
    and r: "end_times ts h1 [Suc j..<length ts] = Inr h'"
    by (auto split: sum.splits)
  have same: "same_but_end h h1" using s by (rule end_time_step_same)
  show ?case
  proof (cases "i = j")
    case True
    have "\<forall>k\<in>set [Suc j..<length ts]. ts ! k \<noteq> ts ! j"
      using assms(1) jl by (auto simp: nth_eq_iff_index_eq)
    with r have "h' ! (ts ! j) = h1 ! (ts ! j)" by (rule end_times_frame)
    moreover from Suc.prems(1) jl have "ts ! j < length h" by simp
    ultimately show ?thesis
      using end_time_step_sets[OF s] True by simp
  next
    case False
    with Suc.prems(3) have ji: "Suc j \<le> i" by simp
    from Suc.hyps(2) have n: "n = length ts - Suc j" by simp
    from same Suc.prems(1) have v: "\<forall>t\<in>set ts. t < length h1"
      by (simp add: same_but_end_def)
    from Suc.hyps(1)[OF n v r ji Suc.prems(4)]
    have "dict_get (h' ! (ts ! i)) ''end_time'' =
           (if i + 1 < length ts then dict_get (h1 ! (ts ! (i + 1))) ''start_time'' else Some PNone)" .
    moreover have "dict_get (h1 ! r) ''start_time'' = dict_get (h ! r) ''start_time''" for r
      using same by (simp add: same_but_end_def)
    ultimately show ?thesis by simp
  qed
qed

lemma end_times_all_same: "end_times ts h is = Inr h' \<Longrightarrow> same_but_end h h'"
proof (induction "is" arbitrary: h)
  case Nil
  then show ?case by (simp add: same_but_end_refl)
next
  case (Cons i "is")
  from Cons.prems obtain h1 where s: "end_time_step ts h i = Inr h1"
    and r: "end_times ts h1 is = Inr h'"
    by (auto split: sum.splits)
  from end_time_step_same[OF s] Cons.IH[OF r] show ?case by (rule same_but_end_trans)
qed

lemma wf_finish: "wf st \<Longrightarrow> \<forall>t\<in>set (tracks_data (finish st)). t < length (store st)"
  by (auto simp: wf_def finish_def truthy_current_def split: option.splits)

text \<open>When no record occurs twice in the list that parse returns, each record ends
  where the next one starts and the last end time is \<open>None\<close>.\<close>

lemma distinct_tracks_end_times:
  assumes "parse cue_lines = Inr r" "distinct (tracks r)"
  shows "(\<forall>i. Suc i < length (track_records r) \<longrightarrow>
            dict_get (track_records r ! i) ''end_time''
              = dict_get (track_records r ! Suc i) ''start_time'')
       \<and> (track_records r \<noteq> [] \<longrightarrow> dict_get (last (track_records r)) ''end_time'' = Some PNone)"
proof -
  from assms(1) obtain st0 where sc: "scan initial cue_lines = Inr st0"
    and e: "end_times (tracks_data (finish st0)) (store st0) [0..<length (tracks_data (finish st0))]
              = Inr (objects r)"
    and t: "tracks r = tracks_data (finish st0)"
    by (auto simp: parse_eq store_finish split: sum.splits)
  let ?ts = "tracks r" and ?h = "store st0" and ?h' = "objects r"
  from sc have "wf st0" using wf_run[OF wf_initial] by (simp add: scan_run)
  then have v: "\<forall>t\<in>set ?ts. t < length ?h" unfolding t by (rule wf_finish)
  note chain = end_times_chain[OF assms(2) v e[folded t], of _ ]
  have same: "same_but_end ?h ?h'" using e by (rule end_times_all_same)
  have len: "length (track_records r) = length ?ts" by (simp add: track_records_def)
  have nth: "track_records r ! i = ?h' ! (?ts ! i)" if "i < length ?ts" for i
    using that by (simp add: track_records_def)
  show ?thesis
  proof (intro conjI allI impI)
    fix i assume i: "Suc i < length (track_records r)"
    with len have i': "i < length ?ts" "Suc i < length ?ts" by simp_all
    from chain[of i] i' have "dict_get (?h' ! (?ts ! i)) ''end_time''
        = dict_get (?h ! (?ts ! Suc i)) ''start_time''" by simp
    also have "\<dots> = dict_get (?h' ! (?ts ! Suc i)) ''start_time''"
      using same by (simp add: same_but_end_def)
    finally show "dict_get (track_records r ! i) ''end_time''
              = dict_get (track_records r ! Suc i) ''start_time''"
      using i' by (simp add: nth)
  next
    assume ne: "track_records r \<noteq> []"
    with len have k: "length ?ts - 1 < length ?ts" by (cases ?ts) auto
    from k have "\<not> length ?ts - 1 + 1 < length ?ts" by simp
    with chain[of "length ?ts - 1"] k
    have "dict_get (?h' ! (?ts ! (length ?ts - 1))) ''end_time'' = Some PNone"
      by (simp only: if_False le0)
    moreover have "last (track_records r) = track_records r ! (length ?ts - 1)"
      using ne len by (simp add: last_conv_nth)
    ultimately show "dict_get (last (track_records r)) ''end_time'' = Some PNone"
      using k by (simp add: nth)
  qed
qed

subsection \<open>End times of a list that holds a record twice\<close>

text \<open>
  C1 at the cue text below, in which an unnumbered \<open>TRACK\<close> directive follows track 1
  (\<open>distinct_tracks_end_times\<close> does not apply).
  The list returned holds track 1 twice, then track 2. Line 79 first sets the end time
  of track 1 to its own start time and then to the start time of track 2, so the record
  at index 0 ends at 180 while the record at index 1 starts at 0.
\<close>

theorem duplicate_record_breaks_end_times:
  "parse [''TRACK 01 AUDIO'', ''INDEX 01 00:00:00'', ''TRACK X AUDIO'', ''TRACK 02 AUDIO'', ''INDEX 01 03:00:00'']
     = Inr \<lparr>album = [], tracks = [0, 0, 1],
            objects = [[(''number'', PInt 1), (''performer'', PNone), (''title'', PStr (default_title 1)),
                        (''start_time'', PFloat 0), (''end_time'', PFloat 180)],
                       [(''number'', PInt 2), (''performer'', PNone), (''title'', PStr (default_title 2)),
                        (''start_time'', PFloat 180), (''end_time'', PNone)]]\<rparr>
   \<and> map (\<lambda>d. dict_get d ''end_time'')
        (track_records \<lparr>album = [], tracks = [0, 0, 1],
            objects = [[(''number'', PInt 1), (''performer'', PNone), (''title'', PStr (default_title 1)),
                        (''start_time'', PFloat 0), (''end_time'', PFloat 180)],
                       [(''number'', PInt 2), (''performer'', PNone), (''title'', PStr (default_title 2)),
                        (''start_time'', PFloat 180), (''end_time'', PNone)]]\<rparr>)
       = [Some (PFloat 180), Some (PFloat 180), Some PNone]
   \<and> map (\<lambda>d. dict_get d ''start_time'')
        (track_records \<lparr>album = [], tracks = [0, 0, 1],
            objects = [[(''number'', PInt 1), (''performer'', PNone), (''title'', PStr (default_title 1)),
                        (''start_time'', PFloat 0), (''end_time'', PFloat 180)],
                       [(''number'', PInt 2), (''performer'', PNone), (''title'', PStr (default_title 2)),
                        (''start_time'', PFloat 180), (''end_time'', PNone)]]\<rparr>)
       = [Some (PFloat 0), Some (PFloat 0), Some (PFloat 180)]"
  by code_simp

subsection \<open>The \<open>FILE\<close> directive\<close>

lemma on_file_frame:
  "tracks_data (on_file st args) = tracks_data st \<and> store (on_file st args) = store st
   \<and> current_track_info (on_file st args) = current_track_info st
   \<and> (\<forall>k. k \<noteq> ''file'' \<longrightarrow> dict_get (album_data (on_file st args)) k = dict_get (album_data st) k)"
  by (simp add: on_file_def album_set_def dict_get_set split: option.splits list.splits)

text \<open>
  C8, as the code has it. At any point of a parse, after the lines \<open>before\<close>, a
  \<open>FILE\<close> directive raises nothing and changes nothing but the \<open>'file'\<close> entry of the
  album record. After a numbered \<open>TRACK\<close> directive (a track is being built) it
  changes nothing at all. Before any numbered \<open>TRACK\<close> directive the entry becomes the
  first quoted text of the argument if there is one, else the first token of the
  argument, and an argument without tokens leaves the album record as it is.
\<close>

theorem file_directive_frame:
  assumes "scan initial before = Inr st" and "directive raw = Some (''FILE'', args)"
  shows "\<exists>st'. exec_line st raw = Inr st'
           \<and> tracks_data st' = tracks_data st \<and> store st' = store st
           \<and> current_track_info st' = current_track_info st
           \<and> (\<forall>k. k \<noteq> ''file'' \<longrightarrow> dict_get (album_data st') k = dict_get (album_data st) k)
           \<and> ((\<exists>d\<in>set (track_directives before). numbered d) \<longrightarrow> st' = st)
           \<and> ((\<forall>d\<in>set (track_directives before). \<not> numbered d) \<longrightarrow>
                 album_data st' =
                   (case search_quoted args of
                      Some q \<Rightarrow> dict_set ''file'' (PStr q) (album_data st)
                    | None \<Rightarrow>
                        (case split_ws args of
                           [] \<Rightarrow> album_data st
                         | tok # _ \<Rightarrow> dict_set ''file'' (PStr tok) (album_data st))))"
proof -
  have e: "exec_line st raw = Inr (on_file st args)"
    using assms(2) by (simp add: exec_line_def exec_command_def)
  have n: "on_file st args = st" if "\<exists>d\<in>set (track_directives before). numbered d"
  proof -
    from that obtain d where "d \<in> set (directives before)" "fst d = ''TRACK''" "numbered d"
      by (auto simp: track_directives_def)
    then have "\<exists>d\<in>set (directives before). fst d = ''TRACK'' \<and> numbered d" by blast
    with assms(1) have "current_track_info st \<noteq> None"
      by (intro run_current_some[of initial "directives before"]) (simp_all add: scan_run)
    then show ?thesis by (auto simp: on_file_def)
  qed
  have u: "album_data (on_file st args) =
             (case search_quoted args of
                Some q \<Rightarrow> dict_set ''file'' (PStr q) (album_data st)
              | None \<Rightarrow>
                  (case split_ws args of
                     [] \<Rightarrow> album_data st
                   | tok # _ \<Rightarrow> dict_set ''file'' (PStr tok) (album_data st)))"
    if "\<forall>d\<in>set (track_directives before). \<not> numbered d"
  proof -
    have "unnumbered_tracks (directives before)"
      using that by (auto simp: unnumbered_tracks_def track_directives_def)
    moreover have "idle initial" by (simp add: idle_def initial_def)
    ultimately obtain st1 where "run initial (directives before) = Inr st1" "idle st1"
      using idle_run by blast
    with assms(1) have "idle st" by (simp add: scan_run)
    then have "current_track_info st = None" by (simp add: idle_def)
    then show ?thesis
      by (simp add: on_file_def album_set_def split: option.splits list.splits)
  qed
  from e on_file_frame[of st args] n u show ?thesis
    by (intro exI[of _ "on_file st args"]) simp
qed

text \<open>A \<open>FILE\<close> line after \<open>TRACK 01\<close> changes nothing; before any track, a quoted
  name and a bare token are stored.\<close>

theorem file_directive_frame_witness:
  "(\<exists>st. scan initial [''TRACK 01 AUDIO''] = Inr st \<and> exec_line st ''FILE x.wav WAVE'' = Inr st)
   \<and> (\<exists>st st'. scan initial [''TITLE t''] = Inr st \<and> exec_line st ''FILE \"q r.flac\" WAVE'' = Inr st'
         \<and> album_data st' = dict_set ''file'' (PStr ''q r.flac'') (album_data st))
   \<and> (\<exists>st st'. scan initial [''TITLE t''] = Inr st \<and> exec_line st ''FILE x.wav WAVE'' = Inr st'
         \<and> album_data st' = dict_set ''file'' (PStr ''x.wav'') (album_data st))"
proof -
  let ?s1 = "\<lparr>album_data = [], tracks_data = [],
              store = [[(''number'', PInt 1), (''performer'', PNone), (''title'', PStr (default_title 1))]],
              current_track_info = Some 0\<rparr>"
  let ?s2 = "\<lparr>album_data = [(''title'', PStr ''t'')], tracks_data = [], store = [],
              current_track_info = None\<rparr>"
  have a1: "scan initial [''TRACK 01 AUDIO''] = Inr ?s1" by code_simp
  have a2: "scan initial [''TITLE t''] = Inr ?s2" by code_simp
  have d1: "directive ''FILE x.wav WAVE'' = Some (''FILE'', ''x.wav WAVE'')" by code_simp
  have d2: "directive ''FILE \"q r.flac\" WAVE'' = Some (''FILE'', ''\"q r.flac\" WAVE'')" by code_simp
  have n1: "\<exists>d\<in>set (track_directives [''TRACK 01 AUDIO'']). numbered d" by code_simp
  have n2: "\<forall>d\<in>set (track_directives [''TITLE t'']). \<not> numbered d" by code_simp
  have q1: "search_quoted ''x.wav WAVE'' = None" by code_simp
  have q2: "search_quoted ''\"q r.flac\" WAVE'' = Some ''q r.flac''" by code_simp
  have w1: "split_ws ''x.wav WAVE'' = [''x.wav'', ''WAVE'']" by code_simp
  from file_directive_frame[OF a1 d1] n1
  have "exec_line ?s1 ''FILE x.wav WAVE'' = Inr ?s1" by auto
  moreover from file_directive_frame[OF a2 d2] n2 q2
  have "\<exists>st'. exec_line ?s2 ''FILE \"q r.flac\" WAVE'' = Inr st'
         \<and> album_data st' = dict_set ''file'' (PStr ''q r.flac'') (album_data ?s2)" by auto
  moreover from file_directive_frame[OF a2 d1] n2 q1 w1
  have "\<exists>st'. exec_line ?s2 ''FILE x.wav WAVE'' = Inr st'
         \<and> album_data st' = dict_set ''file'' (PStr ''x.wav'') (album_data ?s2)" by auto
  ultimately show ?thesis using a1 a2 by blast
qed

text \<open>C8 as stated fails after a \<open>TRACK\<close> directive without a number: no track is
  being built, and the \<open>FILE\<close> line that follows it sets the file of the album.\<close>

theorem file_after_unnumbered_track:
  "track_directives [''TRACK X AUDIO''] = [(''TRACK'', ''X AUDIO'')]
   \<and> parse [''TRACK X AUDIO''] = Inr \<lparr>album = [], tracks = [], objects = []\<rparr>
   \<and> parse [''TRACK X AUDIO'', ''FILE a.wav WAVE'']
       = Inr \<lparr>album = [(''file'', PStr ''a.wav'')], tracks = [], objects = []\<rparr>"
  by code_simp

section \<open>Properties of the album processor\<close>




subsection \<open>The outcome of an album\<close>

lemma run_jobs_results:
  "run_jobs e announce jobs = (tr, Inr results)
   \<Longrightarrow> map (process_single_track e) jobs = map Inr results \<and> tr = map Split jobs"
proof (induction jobs arbitrary: tr results)
  case Nil
  then show ?case by simp
next
  case (Cons j js)
  from Cons.prems obtain res tr' results' where
    r: "process_single_track e j = Inr res" and
    rest: "run_jobs e announce js = (tr', Inr results')" and
    tr: "tr = Split j # tr'" and rs: "results = res # results'"
    by (auto split: if_splits sum.splits prod.splits)
  from Cons.IH[OF rest] r tr rs show ?case by simp
qed

lemma run_jobs_trace: "ev \<in> set (fst (run_jobs e announce jobs)) \<Longrightarrow> \<exists>j. ev = Split j"
  by (induction jobs arbitrary: ev) (auto split: if_splits sum.splits prod.splits)

lemma failed_have_diagnostic:
  "process_single_track e j = Inr res \<Longrightarrow> \<not> fst res \<Longrightarrow> snd res \<noteq> None"
  by (auto simp: process_single_track_def split: sum.splits body_outcome.splits)

lemma failed_tracks_empty: "failed_tracks results = [] \<longleftrightarrow> (\<forall>res\<in>set results. fst res)"
  by (auto simp: failed_tracks_def filter_empty_conv)

lemma aggregate_result:
  assumes "aggregate results = Inr (ok, diag)"
  shows "(ok \<longleftrightarrow> (\<forall>res\<in>set results. fst res)) \<and> (ok \<longrightarrow> diag = None)
       \<and> (\<not> ok \<longrightarrow> diag = Some (join_sep CHR 0x0A (map the (failed_tracks results))))"
  using assms by (auto simp: aggregate_def failed_tracks_empty split: if_splits)

text \<open>
  C4, as the code has it. When a call with a track list that is not empty returns, there
  is one outcome for each track job, the album succeeds exactly when every outcome is a
  success, a success carries no diagnostic, every failed outcome carries one, and the
  diagnostic of a failed album is the diagnostics of all failed tracks, in order, joined
  by line feeds.
\<close>

theorem album_outcome_aggregates:
  assumes "track_list \<noteq> []"
    and "process_album e output_dir album_info track_list h source_dir flag = (tr, h', Inr (ok, diag))"
  shows "\<exists>results input_audio_file output_path.
           map (process_single_track e)
               (tasks_args_of h' album_info input_audio_file output_path track_list)
             = map Inr results
           \<and> (ok \<longleftrightarrow> (\<forall>res\<in>set results. fst res))
           \<and> (ok \<longrightarrow> diag = None)
           \<and> (\<forall>res\<in>set results. \<not> fst res \<longrightarrow> snd res \<noteq> None)
           \<and> (\<not> ok \<longrightarrow> diag = Some (join_sep CHR 0x0A (map the (failed_tracks results))))"
proof -
  from assms obtain t f tr' results where
    jobs: "run_jobs e (\<not> (flag \<and> 1 < length track_list))
             (tasks_args_of (set_last_end_time (ffmpeg_probe e (path_join source_dir f)) track_list h)
                album_info (path_join source_dir f) (output_path_of output_dir source_dir t) track_list)
           = (tr', Inr results)"
    and h': "h' = set_last_end_time (ffmpeg_probe e (path_join source_dir f)) track_list h"
    and agg: "aggregate results = Inr (ok, diag)"
    by (auto simp: process_album_def Let_def
        split: sum.splits option.splits pyval.splits if_splits prod.splits)
  let ?jobs = "tasks_args_of h' album_info (path_join source_dir f)
                 (output_path_of output_dir source_dir t) track_list"
  from run_jobs_results[OF jobs[folded h']]
  have m: "map (process_single_track e) ?jobs = map Inr results" by simp
  have d: "\<forall>res\<in>set results. \<not> fst res \<longrightarrow> snd res \<noteq> None"
  proof (intro ballI impI)
    fix res assume "res \<in> set results" "\<not> fst res"
    then obtain i where i: "i < length results" "results ! i = res"
      by (auto simp: in_set_conv_nth)
    from m have "length ?jobs = length results" by (metis length_map)
    with i m have "process_single_track e (?jobs ! i) = Inr res"
      by (metis nth_map)
    then show "snd res \<noteq> None" using \<open>\<not> fst res\<close> by (rule failed_have_diagnostic)
  qed
  from m d aggregate_result[OF agg] show ?thesis by blast
qed

text \<open>Three tracks, ffmpeg failing on tracks 2 and 3: the album fails with both
  diagnostics.\<close>

theorem album_outcome_aggregates_witness:
  "\<exists>tr h' results.
     process_album (failing_env [2, 3]) None [(''file'', PStr ''a.flac'')] [0, 1, 2]
        [[(''number'', PInt 1), (''title'', PStr ''one''), (''start_time'', PFloat 0)],
         [(''number'', PInt 2), (''title'', PStr ''two''), (''start_time'', PFloat 60)],
         [(''number'', PInt 3), (''title'', PStr ''three''), (''start_time'', PFloat 90)]]
        ''/music'' False
       = (tr, h', Inr (False, Some (join_sep CHR 0x0A (map the (failed_tracks results)))))
     \<and> map fst results = [True, False, False]"
proof -
  let ?h = "[[(''number'', PInt 1), (''title'', PStr ''one''), (''start_time'', PFloat 0)],
         [(''number'', PInt 2), (''title'', PStr ''two''), (''start_time'', PFloat 60)],
         [(''number'', PInt 3), (''title'', PStr ''three''), (''start_time'', PFloat 90)]]"
  let ?a = "[(''file'', PStr ''a.flac'')]"
  let ?p = "process_album (failing_env [2, 3]) None ?a [0, 1, 2] ?h ''/music'' False"
  let ?jobs = "tasks_args_of ?h ?a ''/music/a.flac'' ''/music/Untitled Album'' [0, 1, 2]"
  let ?d2 = "''['' @ txt_track @ '' 02]'' @ msg_ffmpeg_failed @ ''no 2'' @ msg_rule"
  let ?d3 = "''['' @ txt_track @ '' 03]'' @ msg_ffmpeg_failed @ ''no 3'' @ msg_rule"
  have p: "?p = (Makedirs ''/music/Untitled Album'' # Probe ''/music/a.flac'' # map Split ?jobs, ?h,
                 Inr (False, Some (?d2 @ CHR 0x0A # ?d3)))"
    by code_simp
  have ne: "[0, 1, 2] \<noteq> ([] :: nat list)" by simp
  from album_outcome_aggregates[OF ne p] obtain results i o' where
    m: "map (process_single_track (failing_env [2, 3])) (tasks_args_of ?h ?a i o' [0, 1, 2]) = map Inr results"
    and d: "Some (?d2 @ CHR 0x0A # ?d3) = Some (join_sep CHR 0x0A (map the (failed_tracks results)))"
    by auto
  have "map (process_single_track (failing_env [2, 3])) (tasks_args_of ?h ?a i o' [0, 1, 2])
          = [Inr (True, None), Inr (False, Some ?d2), Inr (False, Some ?d3)]"
    by code_simp
  with m have "map fst results = [True, False, False]"
    by (auto simp: map_eq_Cons_conv)
  with p d show ?thesis by auto
qed

text \<open>C4 as stated fails on an empty track list: no track job runs, so no track outcome
  is a failure, and the album outcome is a failure.\<close>

theorem empty_album_fails_without_failed_track:
  "process_album quiet_env None [(''file'', PStr ''a.flac'')] [] [] ''/music'' True
     = ([Makedirs ''/music/Untitled Album''], [], Inr (False, Some msg_empty_tracks))
   \<and> run_jobs quiet_env True (tasks_args_of [] [(''file'', PStr ''a.flac'')] ''/music/a.flac''
        ''/music/Untitled Album'' []) = ([], Inr [])"
  by code_simp

section \<open>Properties of the batch orchestrator\<close>

lemma pool_open_iff:
  "Pool_open c \<in> set (fst (process_album e output_dir album_info track_list h source_dir flag))
   \<longleftrightarrow> reaches_tracks e output_dir album_info source_dir \<and> flag \<and> 1 < length track_list
        \<and> c = pool_size e (length track_list)"
proof -
  have no: "Pool_open c \<notin> set (fst (run_jobs e announce jobs))" for announce jobs
    using run_jobs_trace[of "Pool_open c" e announce jobs] by auto
  have no': "Pool_open c \<notin> set tr" if "run_jobs e announce jobs = (tr, r)" for announce jobs tr r
    using no[of announce jobs] that by simp
  show ?thesis
    by (auto simp: process_album_def reaches_tracks_def pool_size_def Let_def
        dest: no' split: sum.splits option.splits pyval.splits prod.splits)
qed

text \<open>
  C5. With more than one album task the albums run in a pool of
  \<open>min(cpu_count(), tasks, 4)\<close> workers and every worker gets the flag \<open>False\<close>; with
  the flag \<open>False\<close> \<open>process_album\<close> opens no pool. With exactly one task the album is
  processed with the flag \<open>True\<close>, and \<open>process_album\<close> then opens a pool of
  \<open>min(cpu_count(), tracks, 4)\<close> workers for more than one track. So a track pool is
  only ever opened by a worker of a batch that has no album pool.
\<close>

theorem concurrency_modes_exclusive:
  "(1 < length tasks \<longrightarrow>
      dispatch_albums e tasks = (Some (pool_size e (length tasks)), map (\<lambda>t. (t, False)) tasks))
   \<and> (length tasks = 1 \<longrightarrow> dispatch_albums e tasks = (None, [(hd tasks, True)]))
   \<and> (\<forall>c. Pool_open c \<notin> set (fst (process_album e output_dir album_info track_list h source_dir False)))
   \<and> (reaches_tracks e output_dir album_info source_dir \<and> 1 < length track_list \<longrightarrow>
        Pool_open (pool_size e (length track_list))
          \<in> set (fst (process_album e output_dir album_info track_list h source_dir True)))
   \<and> (\<forall>arg\<in>set (snd (dispatch_albums e tasks)). \<forall>c.
        Pool_open c \<in> set (fst (process_album e output_dir album_info track_list h source_dir (snd arg)))
        \<longrightarrow> fst (dispatch_albums e tasks) = None \<and> c = pool_size e (length track_list))"
proof (intro conjI impI allI ballI)
  assume "1 < length tasks"
  then show "dispatch_albums e tasks = (Some (pool_size e (length tasks)), map (\<lambda>t. (t, False)) tasks)"
    by (simp add: dispatch_albums_def pool_size_def)
next
  assume "length tasks = 1"
  then obtain t where "tasks = [t]" by (cases tasks) auto
  then show "dispatch_albums e tasks = (None, [(hd tasks, True)])"
    by (simp add: dispatch_albums_def)
next
  fix c
  show "Pool_open c \<notin> set (fst (process_album e output_dir album_info track_list h source_dir False))"
    by (simp add: pool_open_iff)
next
  assume "reaches_tracks e output_dir album_info source_dir \<and> 1 < length track_list"
  then show "Pool_open (pool_size e (length track_list))
          \<in> set (fst (process_album e output_dir album_info track_list h source_dir True))"
    by (simp add: pool_open_iff)
next
  fix arg c
  assume a: "arg \<in> set (snd (dispatch_albums e tasks))"
    and p: "Pool_open c \<in> set (fst (process_album e output_dir album_info track_list h source_dir (snd arg)))"
  from p have f: "snd arg" and c: "c = pool_size e (length track_list)"
    by (simp_all add: pool_open_iff)
  from a f have "\<not> 1 < length tasks"
    by (auto simp: dispatch_albums_def split: if_splits)
  then show "fst (dispatch_albums e tasks) = None"
    by (simp add: dispatch_albums_def)
  from c show "c = pool_size e (length track_list)" .
qed

text \<open>Three tasks on eight processors: a pool of three, flags \<open>False\<close>. One task: no
  album pool, flag \<open>True\<close>, and a track pool of two for an album of two tracks.\<close>

theorem concurrency_modes_exclusive_witness:
  "dispatch_albums quiet_env [''a.cue'', ''b.cue'', ''c.flac'']
     = (Some 3, [(''a.cue'', False), (''b.cue'', False), (''c.flac'', False)])
   \<and> dispatch_albums quiet_env [''a.cue''] = (None, [(''a.cue'', True)])
   \<and> Pool_open 2 \<in> set (fst (process_album quiet_env None [(''file'', PStr ''a.flac'')] [0, 1]
        [[(''number'', PInt 1), (''title'', PStr ''one''), (''start_time'', PFloat 0)],
         [(''number'', PInt 2), (''title'', PStr ''two''), (''start_time'', PFloat 60)]]
        ''/music'' True))"
proof -
  let ?h = "[[(''number'', PInt 1), (''title'', PStr ''one''), (''start_time'', PFloat 0)],
         [(''number'', PInt 2), (''title'', PStr ''two''), (''start_time'', PFloat 60)]]"
  note t = concurrency_modes_exclusive[of _ quiet_env None "[(''file'', PStr ''a.flac'')]" "[0, 1]" ?h "''/music''"]
  have r: "reaches_tracks quiet_env None [(''file'', PStr ''a.flac'')] ''/music''" by code_simp
  have ps: "pool_size quiet_env n = min 8 (min (int n) 4)" for n
    by (simp add: pool_size_def quiet_env_def)
  from t[of "[''a.cue'', ''b.cue'', ''c.flac'']"]
  have "dispatch_albums quiet_env [''a.cue'', ''b.cue'', ''c.flac'']
     = (Some 3, [(''a.cue'', False), (''b.cue'', False), (''c.flac'', False)])" by (simp add: ps)
  moreover from t[of "[''a.cue'']"]
  have "dispatch_albums quiet_env [''a.cue''] = (None, [(''a.cue'', True)])" by simp
  moreover from t[of "[''a.cue'']"] r
  have "Pool_open 2 \<in> set (fst (process_album quiet_env None [(''file'', PStr ''a.flac'')] [0, 1] ?h ''/music'' True))"
    by (simp add: ps)
  ultimately show ?thesis by blast
qed

end
